theory Spec2Isabelle
  imports Complex_Main "HOL-Library.Sublist"
begin

section \<open>String helpers of the manager (mcp.go, lines 605-647)\<close>

text \<open>
  Go strings are byte sequences; they are modelled as \<open>string\<close> (a list of \<open>char\<close>).
  Go's \<open>int\<close> is modelled as \<open>int\<close>. A slice expression \<open>s[a:]\<close> is \<open>drop a s\<close> and
  \<open>s[a:b]\<close> is \<open>take (b - a) (drop a s)\<close>.
\<close>

text \<open>
  The inner loop of \<open>indexOf\<close>: \<open>j\<close> runs from its current value up to \<open>len(substr)\<close>;
  the result is the final value of \<open>match\<close>. The outer loop's guard keeps \<open>i + j\<close> below
  \<open>len(s)\<close>, so the byte reads never leave the string.
\<close>

function indexOf_match :: "string \<Rightarrow> string \<Rightarrow> nat \<Rightarrow> nat \<Rightarrow> bool" where
  "indexOf_match s substr i j =
     (if j < length substr
      then (if s ! (i + j) \<noteq> substr ! j then False
            else indexOf_match s substr i (j + 1))
      else True)"
  by pat_completeness auto
termination
  by (relation "measure (\<lambda>(s, substr, i, j). length substr - j)") auto

declare indexOf_match.simps [simp del]

text \<open>The outer loop of \<open>indexOf\<close>: \<open>for i := 0; i <= len(s)-len(substr); i++\<close>.\<close>

function indexOf_loop :: "string \<Rightarrow> string \<Rightarrow> nat \<Rightarrow> int" where
  "indexOf_loop s substr i =
     (if int i \<le> int (length s) - int (length substr)
      then (if indexOf_match s substr i 0 then int i
            else indexOf_loop s substr (i + 1))
      else - 1)"
  by pat_completeness auto
termination
  by (relation "measure (\<lambda>(s, substr, i). Suc (length s) - i)") auto

declare indexOf_loop.simps [simp del]

definition indexOf :: "string \<Rightarrow> string \<Rightarrow> int" where
  "indexOf s substr = indexOf_loop s substr 0"

definition hasPrefix :: "string \<Rightarrow> string \<Rightarrow> bool" where
  "hasPrefix s pfx \<longleftrightarrow> length s \<ge> length pfx \<and> take (length pfx) s = pfx"

text \<open>
  The loop of \<open>splitN\<close>: \<open>for i := 0; i < n-1; i++\<close>, with the local variables
  \<open>start\<close> and \<open>result\<close>; the value is the slice returned after the loop.
\<close>

function splitN_loop :: "string \<Rightarrow> string \<Rightarrow> int \<Rightarrow> int \<Rightarrow> nat \<Rightarrow> string list \<Rightarrow> string list" where
  "splitN_loop s sep n i start result =
     (if i < n - 1
      then (let pos = indexOf (drop start s) sep in
            if pos = - 1 then result @ [drop start s]
            else (let pos' = nat pos + start in
                  splitN_loop s sep n (i + 1) (pos' + length sep)
                    (result @ [take (pos' - start) (drop start s)])))
      else result @ [drop start s])"
  by pat_completeness auto
termination
  by (relation "measure (\<lambda>(s, sep, n, i, start, result). nat (n - 1 - i))") auto

declare splitN_loop.simps [simp del]

definition splitN :: "string \<Rightarrow> string \<Rightarrow> int \<Rightarrow> string list" where
  "splitN s sep n =
     (if n = 0 then []
      else if n = 1 then [s]
      else splitN_loop s sep n 0 0 [])"

subsection \<open>The standard-library functions the helpers stand for\<close>

text \<open>
  \<open>strings.Index(s, substr)\<close> is the index of the first instance of \<open>substr\<close> in \<open>s\<close>,
  or \<open>-1\<close> if \<open>substr\<close> is not present in \<open>s\<close>.
\<close>

definition occurs_at :: "string \<Rightarrow> string \<Rightarrow> nat \<Rightarrow> bool" where
  "occurs_at s substr i \<longleftrightarrow>
     i + length substr \<le> length s \<and> take (length substr) (drop i s) = substr"

definition strings_Index :: "string \<Rightarrow> string \<Rightarrow> int" where
  "strings_Index s substr =
     (case find (occurs_at s substr) [0..<Suc (length s)] of
        None \<Rightarrow> - 1
      | Some i \<Rightarrow> int i)"

text \<open>\<open>strings.HasPrefix(s, prefix)\<close> reports whether \<open>s\<close> begins with \<open>prefix\<close>.\<close>

definition strings_HasPrefix :: "string \<Rightarrow> string \<Rightarrow> bool" where
  "strings_HasPrefix s p \<longleftrightarrow> prefix p s"

text \<open>
  \<open>strings.SplitN(s, sep, 2)\<close> for a non-empty \<open>sep\<close>: the part before the first
  occurrence of \<open>sep\<close> and the remainder after it, or \<open>s\<close> alone when \<open>sep\<close> does not
  occur.
\<close>

definition strings_SplitN2 :: "string \<Rightarrow> string \<Rightarrow> string list" where
  "strings_SplitN2 s sep =
     (case find (occurs_at s sep) [0..<Suc (length s)] of
        None \<Rightarrow> [s]
      | Some i \<Rightarrow> [take i s, drop (i + length sep) s])"

section \<open>Data model (mcp.go, lines 19-51 and 462-473)\<close>

record MCPServer =
  Name :: string
  Command :: string
  Args :: "string list"
  URL :: string
  Headers :: "(string \<times> string) list"
  Env :: "(string \<times> string) list"
  Timeout :: int

text \<open>
  \<open>TransportType\<close> is a string type with three constants; \<open>NoTransport\<close> is its zero
  value \<open>""\<close>, the value of the field before \<open>Connect\<close> has chosen a transport.
\<close>

datatype TransportType = StdioTransport | HTTPTransport | WebSocketTransport | NoTransport

text \<open>
  The values \<open>encoding/json\<close> stores in an \<open>interface{}\<close>: nil, bool, float64, string,
  slice and map. A JSON number is decoded as a float64; it is modelled as a rational.
\<close>

datatype jvalue =
    JNil
  | JBool bool
  | JFloat rat
  | JStr string
  | JArr "jvalue list"
  | JMap "(string \<times> jvalue) list"

text \<open>The conversion \<open>int(idFloat)\<close> of a float64 to \<open>int\<close> drops the fraction (towards zero).\<close>

definition go_int :: "rat \<Rightarrow> int" where
  "go_int f = (if f < 0 then - \<lfloor>- f\<rfloor> else \<lfloor>f\<rfloor>)"

text \<open>
  A \<open>json.RawMessage\<close> is a byte slice: a view of memory, not a copy. The message a
  WebSocket read or an HTTP reply yields has an array of its own, which nothing writes
  again (\<open>OwnBytes\<close>). The line \<open>scanner.Bytes()\<close> yields is a slice of the buffer of the
  \<open>bufio.Scanner\<close>, given by its offset and its length (\<open>ScanSlice\<close>): its bytes are
  whatever that part of the buffer holds when they are read, and a later \<open>Scan\<close> may
  have overwritten them.
\<close>

datatype RawMessage = OwnBytes string | ScanSlice nat nat

text \<open>
  A channel \<open>chan json.RawMessage\<close> of capacity one is an address into the session's
  list \<open>chans\<close> of channel buffers: \<open>None\<close> is an empty buffer, \<open>Some msg\<close> a full one.
  The map \<open>activeRequests\<close> is \<open>None\<close> while it is the nil map (before a \<open>connectVia...\<close>
  has made it). The fields \<open>stdinCmd\<close>, \<open>wsConn\<close> and \<open>httpClient\<close> record whether the
  handle is non-nil. Two fields stand for effects outside the struct: \<open>written\<close> lists
  the byte payloads handed to the transport so far, \<open>closed\<close> records that \<open>Close\<close>
  has killed the process or closed the socket. \<open>scanbuf\<close> is the buffer of the scanner
  of the stdio reader, the memory the lines it delivers are slices of.
\<close>

type_synonym chan = nat

record MCPSession =
  Server :: MCPServer
  transport :: TransportType
  stdinCmd :: bool
  wsConn :: bool
  httpClient :: bool
  reqID :: int
  activeRequests :: "(int \<rightharpoonup> chan) option"
  chans :: "RawMessage option list"
  scanbuf :: string
  written :: "string list"
  closed :: bool

record ToolDefinition =
  ToolName :: string
  Description :: string
  InputSchema :: jvalue

record MCPServerManager =
  servers :: "string \<rightharpoonup> MCPSession"

subsection \<open>Errors and outcomes\<close>

text \<open>
  The code builds every error with \<open>fmt.Errorf\<close>; one constructor stands for each
  format string, with the values the format is filled with (\<open>%w\<close> wraps an error).
  \<open>RequestTimeout\<close> is "request timeout after %ds", \<open>SendFailed\<close> is "failed to send
  request: %w", \<open>InvalidToolNameFormat\<close> is "invalid MCP tool name format: %s" and
  \<open>ServerNotFound\<close> is "MCP server %s not found".
\<close>

text \<open>
  The errors a transport's send function can return: of \<open>json.Marshal\<close>, of the write
  to the pipe or socket, of the HTTP exchange, and of \<open>json.Unmarshal\<close> on the reply body.
\<close>

datatype send_error = MarshalError | WriteError string | RoundTripError string | UnmarshalError

datatype error =
    NeitherCommandNorURL string
  | StdinPipeFailed string
  | StdoutPipeFailed string
  | StartFailed string
  | DialFailed string
  | UnsupportedTransport TransportType
  | SendFailed send_error
  | RequestTimeout int
  | ListToolsFailed error
  | DecodeListToolsFailed
  | ServerError int string
  | CallToolFailed string error
  | DecodeCallToolFailed
  | InitializeFailed error
  | DecodeInitializeFailed
  | InitializationError int string
  | InvalidToolNameFormat string
  | ServerNotFound string

text \<open>
  A call of the code returns, panics (an assignment to an entry of the nil map), or
  never returns (a send on a full channel blocks while the lock is held).
\<close>

datatype 'a outcome = Returns 'a | Panics string | Hangs

fun obind :: "'a outcome \<Rightarrow> ('a \<Rightarrow> 'b outcome) \<Rightarrow> 'b outcome" where
  "obind (Returns x) f = f x"
| "obind (Panics msg) f = Panics msg"
| "obind Hangs f = Hangs"

subsection \<open>What lies outside the program\<close>

text \<open>
  \<open>encoding/json\<close> is a parameter of the model: \<open>marshal\<close> is \<open>json.Marshal\<close> of a
  request map (\<open>None\<close> is an error), \<open>unmarshal_map\<close> is \<open>json.Unmarshal\<close> into a
  \<open>map[string]interface{}\<close>, and the other three are \<open>json.Unmarshal\<close> into the result
  structs of \<open>ListTools\<close>, \<open>CallTool\<close> and \<open>Initialize\<close>: the \<open>Error\<close> field (code and
  message, \<open>None\<close> for a nil pointer) and the \<open>Result\<close> field.
\<close>

record request =
  req_id :: int
  req_method :: string
  req_params :: jvalue

record codec =
  marshal :: "request \<Rightarrow> string option"
  unmarshal_map :: "string \<Rightarrow> (string \<rightharpoonup> jvalue) option"
  unmarshal_list :: "string \<Rightarrow> ((int \<times> string) option \<times> ToolDefinition list) option"
  unmarshal_call :: "string \<Rightarrow> ((int \<times> string) option \<times> jvalue) option"
  unmarshal_init :: "string \<Rightarrow> ((int \<times> string) option \<times> jvalue) option"

text \<open>
  What the peer and the runtime do during one call: \<open>write_result\<close> is the error of
  writing a frame to the pipe or socket (\<open>None\<close> for success), \<open>round_trip\<close> is the
  HTTP exchange for a request body (an error of \<open>NewRequest\<close>, \<open>Do\<close> or \<open>ReadAll\<close>, a
  timeout of the HTTP client among them, or the reply body), \<open>inbound\<close> are the lines
  or messages the background reader takes from the transport before the caller's
  \<open>select\<close> fires, and \<open>deadline_wins\<close> says that the deadline has passed by then and
  the runtime picks that case when the response is ready as well. Time itself is not
  modelled: the exchange is taken to end. \<open>scanner\<close> is the buffer management of
  \<open>bufio.Scanner\<close>: given the buffer before a \<open>Scan\<close> and the line that \<open>Scan\<close> yields,
  the bytes the buffer holds before and after that line once \<open>Scan\<close> has returned
  (the scanner appends to its buffer while there is room, moves its data to the front
  when more than half of the buffer is used up, and reads over what was there).

  \<open>connect_result\<close> is what the operating system does with the connection attempt:
  the pipes and the start of the process for stdio, the dial for WebSocket. A result
  that does not concern the transport at hand counts as success.
\<close>

record call_world =
  write_result :: "string \<Rightarrow> string option"
  round_trip :: "string \<Rightarrow> string + string"
  inbound :: "string list"
  deadline_wins :: bool
  scanner :: "string \<Rightarrow> string \<Rightarrow> string \<times> string"

datatype connect_result =
    ConnectOK
  | StdinPipeError string
  | StdoutPipeError string
  | StartError string
  | DialError string

record server_world =
  connect_world :: connect_result
  init_world :: call_world

section \<open>Session (mcp.go, lines 53-460)\<close>

subsection \<open>Connect\<close>

definition connectViaStdio :: "connect_result \<Rightarrow> MCPSession \<Rightarrow> error option \<times> MCPSession" where
  "connectViaStdio cr ms =
     (case cr of
        StdinPipeError e \<Rightarrow> (Some (StdinPipeFailed e), ms)
      | StdoutPipeError e \<Rightarrow> (Some (StdoutPipeFailed e), ms)
      | StartError e \<Rightarrow> (Some (StartFailed e), ms)
      | _ \<Rightarrow> (None, ms\<lparr>stdinCmd := True, activeRequests := Some Map.empty\<rparr>))"

definition connectViaWebSocket :: "connect_result \<Rightarrow> MCPSession \<Rightarrow> error option \<times> MCPSession" where
  "connectViaWebSocket cr ms =
     (case cr of
        DialError e \<Rightarrow> (Some (DialFailed e), ms)
      | _ \<Rightarrow> (None, ms\<lparr>wsConn := True, activeRequests := Some Map.empty\<rparr>))"

definition connectViaHTTP :: "MCPSession \<Rightarrow> error option \<times> MCPSession" where
  "connectViaHTTP ms = (None, ms\<lparr>httpClient := True, activeRequests := Some Map.empty\<rparr>)"

definition Connect :: "connect_result \<Rightarrow> MCPSession \<Rightarrow> error option \<times> MCPSession" where
  "Connect cr ms =
     (if Command (Server ms) \<noteq> []
      then connectViaStdio cr (ms\<lparr>transport := StdioTransport\<rparr>)
      else if URL (Server ms) \<noteq> []
      then (if strings_HasPrefix (URL (Server ms)) ''ws://''
               \<or> strings_HasPrefix (URL (Server ms)) ''wss://''
            then connectViaWebSocket cr (ms\<lparr>transport := WebSocketTransport\<rparr>)
            else connectViaHTTP (ms\<lparr>transport := HTTPTransport\<rparr>))
      else (Some (NeitherCommandNorURL (Name (Server ms))), ms))"

subsection \<open>Channels and the pending map\<close>

text \<open>\<open>make(chan json.RawMessage, 1)\<close>: a new, empty buffer at the next address.\<close>

definition make_chan :: "MCPSession \<Rightarrow> chan \<times> MCPSession" where
  "make_chan ms = (length (chans ms), ms\<lparr>chans := chans ms @ [None]\<rparr>)"

text \<open>\<open>ch <- msg\<close>: fills an empty buffer; on a full one the sender blocks.\<close>

definition chan_send :: "MCPSession \<Rightarrow> chan \<Rightarrow> RawMessage \<Rightarrow> MCPSession outcome" where
  "chan_send ms ch msg =
     (case chans ms ! ch of
        None \<Rightarrow> Returns (ms\<lparr>chans := (chans ms)[ch := Some msg]\<rparr>)
      | Some _ \<Rightarrow> Hangs)"

text \<open>The bytes a message reads as, in the memory of the session as it is now.\<close>

definition raw_bytes :: "MCPSession \<Rightarrow> RawMessage \<Rightarrow> string" where
  "raw_bytes ms msg =
     (case msg of
        OwnBytes bytes \<Rightarrow> bytes
      | ScanSlice off len \<Rightarrow> take len (drop off (scanbuf ms)))"

text \<open>\<open>ms.activeRequests[id]\<close> read with the comma-ok form; on the nil map it finds nothing.\<close>

definition lookupRequest :: "MCPSession \<Rightarrow> int \<Rightarrow> chan option" where
  "lookupRequest ms id' = (case activeRequests ms of None \<Rightarrow> None | Some m \<Rightarrow> m id')"

text \<open>\<open>delete(ms.activeRequests, id)\<close>; on the nil map it does nothing.\<close>

definition deleteRequest :: "MCPSession \<Rightarrow> int \<Rightarrow> MCPSession" where
  "deleteRequest ms id' =
     ms\<lparr>activeRequests := map_option (\<lambda>m. m(id' := None)) (activeRequests ms)\<rparr>"

subsection \<open>The background readers (lines 119-147 and 172-203)\<close>

text \<open>
  The body of both reader loops, from \<open>json.Unmarshal\<close> to \<open>ms.mu.Unlock()\<close>, for one
  line (stdio) or one message (WebSocket). \<open>json.Unmarshal\<close> reads the bytes of the
  slice; \<open>ch <- line\<close> sends the slice itself, with no copy. Every \<open>continue\<close> leaves
  the session as it is.
\<close>

definition handleResponse :: "codec \<Rightarrow> MCPSession \<Rightarrow> RawMessage \<Rightarrow> MCPSession outcome" where
  "handleResponse cd ms line =
     (case unmarshal_map cd (raw_bytes ms line) of
        None \<Rightarrow> Returns ms
      | Some response \<Rightarrow>
          (case response ''id'' of
             None \<Rightarrow> Returns ms
           | Some idVal \<Rightarrow>
               (case idVal of
                  JFloat idFloat \<Rightarrow>
                    (let id' = go_int idFloat in
                     case lookupRequest ms id' of
                       Some ch \<Rightarrow> obind (chan_send ms ch line) (\<lambda>ms'. Returns (deleteRequest ms' id'))
                     | None \<Rightarrow> Returns ms)
                | _ \<Rightarrow> Returns ms)))"

text \<open>
  The loop of the stdio reader over the lines the scanner yields. Each \<open>scanner.Scan()\<close>
  leaves the line somewhere in the scanner's buffer, with the bytes before and after it
  that \<open>scan\<close> gives; \<open>scanner.Bytes()\<close> is the slice of the buffer at that place.
\<close>

fun readStdioResponses ::
  "codec \<Rightarrow> (string \<Rightarrow> string \<Rightarrow> string \<times> string) \<Rightarrow> MCPSession \<Rightarrow> string list
     \<Rightarrow> MCPSession outcome" where
  "readStdioResponses cd scan ms [] = Returns ms"
| "readStdioResponses cd scan ms (token # rest) =
     (let (before, after) = scan (scanbuf ms) token;
          ms1 = ms\<lparr>scanbuf := before @ token @ after\<rparr>;
          line = ScanSlice (length before) (length token)
      in obind (handleResponse cd ms1 line) (\<lambda>ms'. readStdioResponses cd scan ms' rest))"

text \<open>
  The loop of the WebSocket reader over the messages \<open>ReadMessage\<close> yields before its
  first error; each message has an array of its own.
\<close>

fun readWebSocketResponses :: "codec \<Rightarrow> MCPSession \<Rightarrow> string list \<Rightarrow> MCPSession outcome" where
  "readWebSocketResponses cd ms [] = Returns ms"
| "readWebSocketResponses cd ms (message # rest) =
     obind (handleResponse cd ms (OwnBytes message)) (\<lambda>ms'. readWebSocketResponses cd ms' rest)"

text \<open>
  \<open>connectViaStdio\<close> and \<open>connectViaWebSocket\<close> start a reader; \<open>connectViaHTTP\<close>
  starts none. While a caller waits, the reader of its session (if there is one)
  handles the inbound payloads.
\<close>

definition background_reader :: "codec \<Rightarrow> call_world \<Rightarrow> MCPSession \<Rightarrow> MCPSession outcome" where
  "background_reader cd w ms =
     (case transport ms of
        StdioTransport \<Rightarrow> readStdioResponses cd (scanner w) ms (inbound w)
      | WebSocketTransport \<Rightarrow> readWebSocketResponses cd ms (inbound w)
      | _ \<Rightarrow> Returns ms)"

subsection \<open>sendRequest (lines 219-328)\<close>

text \<open>
  Lines 221-235, under the session's lock: the counter is incremented, the new value
  is the id, a channel is made and stored under the id. Storing into the nil map
  panics.
\<close>

definition registerRequest :: "MCPSession \<Rightarrow> (int \<times> chan \<times> MCPSession) outcome" where
  "registerRequest ms =
     (let ms1 = ms\<lparr>reqID := reqID ms + 1\<rparr>;
          id' = reqID ms1;
          (responseChan, ms2) = make_chan ms1
      in case activeRequests ms2 of
           None \<Rightarrow> Panics ''assignment to entry in nil map''
         | Some m \<Rightarrow> Returns (id', responseChan, ms2\<lparr>activeRequests := Some (m(id' \<mapsto> responseChan))\<rparr>))"

definition newline :: char where
  "newline = CHR 0x0A"

definition sendStdioRequest ::
  "codec \<Rightarrow> call_world \<Rightarrow> request \<Rightarrow> MCPSession \<Rightarrow> send_error option \<times> MCPSession" where
  "sendStdioRequest cd w req ms =
     (case marshal cd req of
        None \<Rightarrow> (Some MarshalError, ms)
      | Some data \<Rightarrow>
          (let data = data @ [newline] in
           case write_result w data of
             Some e \<Rightarrow> (Some (WriteError e), ms)
           | None \<Rightarrow> (None, ms\<lparr>written := written ms @ [data]\<rparr>)))"

text \<open>\<open>wsConn.WriteJSON(req)\<close> encodes the request and writes it as one message.\<close>

definition sendWebSocketRequest ::
  "codec \<Rightarrow> call_world \<Rightarrow> request \<Rightarrow> MCPSession \<Rightarrow> send_error option \<times> MCPSession" where
  "sendWebSocketRequest cd w req ms =
     (case marshal cd req of
        None \<Rightarrow> (Some MarshalError, ms)
      | Some data \<Rightarrow>
          (case write_result w data of
             Some e \<Rightarrow> (Some (WriteError e), ms)
           | None \<Rightarrow> (None, ms\<lparr>written := written ms @ [data]\<rparr>)))"

definition sendHTTPRequest ::
  "codec \<Rightarrow> call_world \<Rightarrow> request \<Rightarrow> chan \<Rightarrow> MCPSession \<Rightarrow> (send_error option \<times> MCPSession) outcome" where
  "sendHTTPRequest cd w req responseChan ms =
     (case marshal cd req of
        None \<Rightarrow> Returns (Some MarshalError, ms)
      | Some data \<Rightarrow>
          (case round_trip w data of
             Inl e \<Rightarrow> Returns (Some (RoundTripError e), ms)
           | Inr responseData \<Rightarrow>
               (let ms1 = ms\<lparr>written := written ms @ [data]\<rparr> in
                case unmarshal_map cd responseData of
                  None \<Rightarrow> Returns (Some UnmarshalError, ms1)
                | Some response \<Rightarrow>
                    obind (chan_send ms1 responseChan (OwnBytes responseData))
                      (\<lambda>ms2. Returns (None, ms2)))))"

text \<open>
  Lines 257-269, the \<open>select\<close>: the response is taken from the channel, or the
  deadline fires, the entry is deleted under the lock and the call fails. With an
  empty channel and nothing more to arrive the deadline is the only case left. The
  caller of \<open>sendRequest\<close> decodes the slice it gets at once; the value returned here is
  the bytes that slice then reads as.
\<close>

definition awaitResponse :: "bool \<Rightarrow> MCPSession \<Rightarrow> int \<Rightarrow> chan \<Rightarrow> (error + string) \<times> MCPSession" where
  "awaitResponse deadline ms id' responseChan =
     (case chans ms ! responseChan of
        Some response \<Rightarrow>
          (if deadline
           then (Inl (RequestTimeout (Timeout (Server ms))), deleteRequest ms id')
           else (Inr (raw_bytes ms response), ms\<lparr>chans := (chans ms)[responseChan := None]\<rparr>))
      | None \<Rightarrow> (Inl (RequestTimeout (Timeout (Server ms))), deleteRequest ms id'))"

text \<open>Lines 250-269: what follows the \<open>switch\<close> once a transport has been tried.\<close>

definition afterSend ::
  "codec \<Rightarrow> call_world \<Rightarrow> MCPSession \<Rightarrow> int \<Rightarrow> chan \<Rightarrow> send_error option
     \<Rightarrow> ((error + string) \<times> MCPSession) outcome" where
  "afterSend cd w ms id' responseChan sendErr =
     (case sendErr of
        Some e \<Rightarrow> Returns (Inl (SendFailed e), deleteRequest ms id')
      | None \<Rightarrow>
          obind (background_reader cd w ms)
            (\<lambda>ms'. Returns (awaitResponse (deadline_wins w) ms' id' responseChan)))"

definition sendRequest ::
  "codec \<Rightarrow> call_world \<Rightarrow> MCPSession \<Rightarrow> string \<Rightarrow> jvalue \<Rightarrow> ((error + string) \<times> MCPSession) outcome" where
  "sendRequest cd w ms method params =
     obind (registerRequest ms) (\<lambda>(id', responseChan, ms1).
       let req = \<lparr>req_id = id', req_method = method, req_params = params\<rparr> in
       case transport ms1 of
         StdioTransport \<Rightarrow>
           (case sendStdioRequest cd w req ms1 of
              (sendErr, ms2) \<Rightarrow> afterSend cd w ms2 id' responseChan sendErr)
       | WebSocketTransport \<Rightarrow>
           (case sendWebSocketRequest cd w req ms1 of
              (sendErr, ms2) \<Rightarrow> afterSend cd w ms2 id' responseChan sendErr)
       | HTTPTransport \<Rightarrow>
           obind (sendHTTPRequest cd w req responseChan ms1)
             (\<lambda>(sendErr, ms2). afterSend cd w ms2 id' responseChan sendErr)
       | NoTransport \<Rightarrow> Returns (Inl (UnsupportedTransport NoTransport), ms1))"

subsection \<open>Typed operations (lines 330-460)\<close>

definition ListTools ::
  "codec \<Rightarrow> call_world \<Rightarrow> MCPSession \<Rightarrow> ((error + ToolDefinition list) \<times> MCPSession) outcome" where
  "ListTools cd w ms =
     obind (sendRequest cd w ms ''tools/list'' (JMap [])) (\<lambda>(r, ms').
       Returns
         (case r of
            Inl err \<Rightarrow> Inl (ListToolsFailed err)
          | Inr response \<Rightarrow>
              (case unmarshal_list cd response of
                 None \<Rightarrow> Inl DecodeListToolsFailed
               | Some (rpc_error, result_tools) \<Rightarrow>
                   (case rpc_error of
                      Some (code, message) \<Rightarrow> Inl (ServerError code message)
                    | None \<Rightarrow>
                        Inr (map (\<lambda>tool. \<lparr>ToolName = ToolName tool,
                                           Description = Description tool,
                                           InputSchema = InputSchema tool\<rparr>) result_tools))),
          ms'))"

definition MCPSession_CallTool ::
  "codec \<Rightarrow> call_world \<Rightarrow> MCPSession \<Rightarrow> string \<Rightarrow> jvalue \<Rightarrow> ((error + jvalue) \<times> MCPSession) outcome" where
  "MCPSession_CallTool cd w ms toolName arguments =
     (let params = JMap [(''name'', JStr toolName), (''arguments'', arguments)] in
      obind (sendRequest cd w ms ''tools/call'' params) (\<lambda>(r, ms').
        Returns
          (case r of
             Inl err \<Rightarrow> Inl (CallToolFailed toolName err)
           | Inr response \<Rightarrow>
               (case unmarshal_call cd response of
                  None \<Rightarrow> Inl DecodeCallToolFailed
                | Some (rpc_error, result) \<Rightarrow>
                    (case rpc_error of
                       Some (code, message) \<Rightarrow> Inl (ServerError code message)
                     | None \<Rightarrow> Inr result)),
           ms')))"

definition Initialize ::
  "codec \<Rightarrow> call_world \<Rightarrow> MCPSession \<Rightarrow> (error option \<times> MCPSession) outcome" where
  "Initialize cd w ms =
     (let params = JMap [(''capabilities'', JMap [])] in
      obind (sendRequest cd w ms ''initialize'' params) (\<lambda>(r, ms').
        Returns
          (case r of
             Inl err \<Rightarrow> Some (InitializeFailed err)
           | Inr response \<Rightarrow>
               (case unmarshal_init cd response of
                  None \<Rightarrow> Some DecodeInitializeFailed
                | Some (rpc_error, result) \<Rightarrow>
                    (case rpc_error of
                       Some (code, message) \<Rightarrow> Some (InitializationError code message)
                     | None \<Rightarrow> None)),
           ms')))"

text \<open>
  \<open>Close\<close> kills the process or closes the socket when the handle is there; its
  callers in the manager drop the error it returns.
\<close>

definition Close :: "MCPSession \<Rightarrow> MCPSession" where
  "Close ms =
     (case transport ms of
        StdioTransport \<Rightarrow> (if stdinCmd ms then ms\<lparr>closed := True\<rparr> else ms)
      | WebSocketTransport \<Rightarrow> (if wsConn ms then ms\<lparr>closed := True\<rparr> else ms)
      | _ \<Rightarrow> ms)"

section \<open>Manager (mcp.go, lines 469-603)\<close>

definition NewMCPServerManager :: MCPServerManager where
  "NewMCPServerManager = \<lparr>servers = Map.empty\<rparr>"

definition newSession :: "MCPServer \<Rightarrow> MCPSession" where
  "newSession server =
     \<lparr>Server = server, transport = NoTransport, stdinCmd = False, wsConn = False,
      httpClient = False, reqID = 0, activeRequests = None, chans = [], scanbuf = [],
      written = [], closed = False\<rparr>"

definition AddServer :: "MCPServerManager \<Rightarrow> MCPServer \<Rightarrow> MCPServerManager" where
  "AddServer mm server = mm\<lparr>servers := (servers mm)(Name server \<mapsto> newSession server)\<rparr>"

definition setSession :: "MCPServerManager \<Rightarrow> string \<Rightarrow> MCPSession \<Rightarrow> MCPServerManager" where
  "setSession mm name session = mm\<lparr>servers := (servers mm)(name \<mapsto> session)\<rparr>"

text \<open>
  The body of the loop of \<open>ConnectAll\<close> for one session: the error of this round
  (\<open>None\<close> when connect and initialize both succeeded) and the session afterwards.
\<close>

definition ConnectAll_body ::
  "codec \<Rightarrow> server_world \<Rightarrow> MCPSession \<Rightarrow> (error option \<times> MCPSession) outcome" where
  "ConnectAll_body cd sw session =
     (case Connect (connect_world sw) session of
        (Some err, session1) \<Rightarrow> Returns (Some err, session1)
      | (None, session1) \<Rightarrow>
          obind (Initialize cd (init_world sw) session1) (\<lambda>(ierr, session2).
            case ierr of
              Some err \<Rightarrow> Returns (Some err, Close session2)
            | None \<Rightarrow> Returns (None, session2)))"

text \<open>
  \<open>for name, session := range mm.servers\<close>: Go leaves the order of a map's keys open;
  the list \<open>order\<close> is the order the runtime picks. The sessions are reached through
  pointers, so each round leaves the session it changed in the map.
\<close>

fun ConnectAll_loop ::
  "codec \<Rightarrow> (string \<Rightarrow> server_world) \<Rightarrow> MCPServerManager \<Rightarrow> error option \<Rightarrow> string list
     \<Rightarrow> (error option \<times> MCPServerManager) outcome" where
  "ConnectAll_loop cd world mm lastErr [] = Returns (lastErr, mm)"
| "ConnectAll_loop cd world mm lastErr (name # rest) =
     (case servers mm name of
        None \<Rightarrow> ConnectAll_loop cd world mm lastErr rest
      | Some session \<Rightarrow>
          (case ConnectAll_body cd (world name) session of
             Returns (err, session') \<Rightarrow>
               ConnectAll_loop cd world (setSession mm name session')
                 (case err of Some e \<Rightarrow> Some e | None \<Rightarrow> lastErr) rest
           | Panics msg \<Rightarrow> Panics msg
           | Hangs \<Rightarrow> Hangs))"

definition ConnectAll ::
  "codec \<Rightarrow> (string \<Rightarrow> server_world) \<Rightarrow> string list \<Rightarrow> MCPServerManager
     \<Rightarrow> (error option \<times> MCPServerManager) outcome" where
  "ConnectAll cd world order mm = ConnectAll_loop cd world mm None order"

definition prefixTool :: "string \<Rightarrow> ToolDefinition \<Rightarrow> ToolDefinition" where
  "prefixTool name tool = tool\<lparr>ToolName := ''mcp_'' @ name @ ''_'' @ ToolName tool\<rparr>"

fun GetTools_loop ::
  "codec \<Rightarrow> (string \<Rightarrow> call_world) \<Rightarrow> MCPServerManager \<Rightarrow> ToolDefinition list \<Rightarrow> string list
     \<Rightarrow> (ToolDefinition list \<times> MCPServerManager) outcome" where
  "GetTools_loop cd world mm allTools [] = Returns (allTools, mm)"
| "GetTools_loop cd world mm allTools (name # rest) =
     (case servers mm name of
        None \<Rightarrow> GetTools_loop cd world mm allTools rest
      | Some session \<Rightarrow>
          (case ListTools cd (world name) session of
             Returns (r, session') \<Rightarrow>
               (case r of
                  Inl err \<Rightarrow> GetTools_loop cd world (setSession mm name session') allTools rest
                | Inr tools \<Rightarrow>
                    GetTools_loop cd world (setSession mm name session')
                      (allTools @ map (prefixTool name) tools) rest)
           | Panics msg \<Rightarrow> Panics msg
           | Hangs \<Rightarrow> Hangs))"

definition GetTools ::
  "codec \<Rightarrow> (string \<Rightarrow> call_world) \<Rightarrow> string list \<Rightarrow> MCPServerManager
     \<Rightarrow> (ToolDefinition list \<times> MCPServerManager) outcome" where
  "GetTools cd world order mm = GetTools_loop cd world mm [] order"

definition MCPServerManager_CallTool ::
  "codec \<Rightarrow> call_world \<Rightarrow> MCPServerManager \<Rightarrow> string \<Rightarrow> jvalue
     \<Rightarrow> ((error + jvalue) \<times> MCPServerManager) outcome" where
  "MCPServerManager_CallTool cd w mm fullToolName arguments =
     (if length fullToolName < 5 \<or> \<not> hasPrefix fullToolName ''mcp_''
      then Returns (Inl (InvalidToolNameFormat fullToolName), mm)
      else
        (let remaining = drop 4 fullToolName;
             parts = splitN remaining ''_'' 2
         in if length parts < 2
            then Returns (Inl (InvalidToolNameFormat fullToolName), mm)
            else
              (let serverName = parts ! 0;
                   actualToolName = parts ! 1
               in case servers mm serverName of
                    None \<Rightarrow> Returns (Inl (ServerNotFound serverName), mm)
                  | Some session \<Rightarrow>
                      obind (MCPSession_CallTool cd w session actualToolName arguments)
                        (\<lambda>(r, session'). Returns (r, setSession mm serverName session')))))"

definition CloseAll :: "MCPServerManager \<Rightarrow> MCPServerManager" where
  "CloseAll mm = mm\<lparr>servers := (\<lambda>name. map_option Close (servers mm name))\<rparr>"

section \<open>Notions the properties are stated with\<close>

text \<open>
  The id the readers take from a payload (lines 132-137 and 188-193): the payload must
  decode to an object with an \<open>id\<close> member that is a JSON number, which \<open>int()\<close>
  converts.
\<close>

definition response_id :: "codec \<Rightarrow> string \<Rightarrow> int option" where
  "response_id cd line =
     (case unmarshal_map cd line of
        None \<Rightarrow> None
      | Some response \<Rightarrow>
          (case response ''id'' of
             Some (JFloat idFloat) \<Rightarrow> Some (go_int idFloat)
           | _ \<Rightarrow> None))"

text \<open>
  The state of the pending map that \<open>Connect\<close> sets up and every operation of the
  session keeps: the map has been made, no two ids share a channel, and every
  channel of a pending id exists and is still empty.
\<close>

definition pending_ok :: "MCPSession \<Rightarrow> bool" where
  "pending_ok ms \<longleftrightarrow>
     (\<exists>m. activeRequests ms = Some m \<and> inj_on m (dom m) \<and>
          (\<forall>k c. m k = Some c \<longrightarrow> c < length (chans ms) \<and> chans ms ! c = None))"

text \<open>
  Both reader loops at once, for the proofs: \<open>prep\<close> is what comes before the common
  body, the session after the read and the slice that holds the payload.
\<close>

fun read_loop ::
  "codec \<Rightarrow> (MCPSession \<Rightarrow> string \<Rightarrow> MCPSession \<times> RawMessage) \<Rightarrow> MCPSession \<Rightarrow> string list
     \<Rightarrow> MCPSession outcome" where
  "read_loop cd prep ms [] = Returns ms"
| "read_loop cd prep ms (token # rest) =
     (case prep ms token of
        (ms1, line) \<Rightarrow> obind (handleResponse cd ms1 line) (\<lambda>ms'. read_loop cd prep ms' rest))"

definition stdio_prep ::
  "(string \<Rightarrow> string \<Rightarrow> string \<times> string) \<Rightarrow> MCPSession \<Rightarrow> string \<Rightarrow> MCPSession \<times> RawMessage" where
  "stdio_prep scan ms token =
     (case scan (scanbuf ms) token of
        (before, after) \<Rightarrow>
          (ms\<lparr>scanbuf := before @ token @ after\<rparr>, ScanSlice (length before) (length token)))"

definition websocket_prep :: "MCPSession \<Rightarrow> string \<Rightarrow> MCPSession \<times> RawMessage" where
  "websocket_prep ms message = (ms, OwnBytes message)"

text \<open>The session after the reader has delivered \<open>line\<close> under the id \<open>k\<close>.\<close>

definition deliver :: "MCPSession \<Rightarrow> int \<Rightarrow> chan \<Rightarrow> RawMessage \<Rightarrow> MCPSession" where
  "deliver ms k c line = deleteRequest (ms\<lparr>chans := (chans ms)[c := Some line]\<rparr>) k"

text \<open>The session after lines 221-235 of \<open>sendRequest\<close>, when the map \<open>m\<close> has been made.\<close>

definition registered :: "MCPSession \<Rightarrow> (int \<rightharpoonup> chan) \<Rightarrow> MCPSession" where
  "registered ms m =
     ms\<lparr>reqID := reqID ms + 1, chans := chans ms @ [None],
        activeRequests := Some (m(reqID ms + 1 \<mapsto> length (chans ms)))\<rparr>"

text \<open>
  Every pending id has been issued by the counter: no pending id is above \<open>reqID\<close>.
  \<open>Connect\<close> sets this up (the map is empty) and every call keeps it, so the id a call
  issues is never pending already.
\<close>

definition ids_issued :: "MCPSession \<Rightarrow> bool" where
  "ids_issued ms \<longleftrightarrow> (\<forall>k c. lookupRequest ms k = Some c \<longrightarrow> k \<le> reqID ms)"

text \<open>
  The tools a session lists in a given world: the list \<open>ListTools\<close> returns, and no
  tools when \<open>ListTools\<close> returns an error.
\<close>

definition listed_tools :: "codec \<Rightarrow> call_world \<Rightarrow> MCPSession \<Rightarrow> ToolDefinition list" where
  "listed_tools cd w session =
     (case ListTools cd w session of
        Returns (Inr tools, session') \<Rightarrow> tools
      | _ \<Rightarrow> [])"

text \<open>
  What one round of \<open>ConnectAll\<close> makes of a session: the error of the round and the
  session afterwards (the round always returns, see \<open>ConnectAll_body_returns\<close>).
\<close>

definition connect_attempt :: "codec \<Rightarrow> server_world \<Rightarrow> MCPSession \<Rightarrow> error option \<times> MCPSession" where
  "connect_attempt cd sw session =
     (case ConnectAll_body cd sw session of
        Returns x \<Rightarrow> x
      | _ \<Rightarrow> (None, session))"

section \<open>Example values\<close>

text \<open>
  Five payloads of a peer, a stand-in for \<open>encoding/json\<close> that knows what each of them
  decodes to (and rejects every other byte string), and a transport on which every write
  succeeds, no HTTP exchange succeeds, nothing arrives and the scanner only ever
  appends to its buffer.
\<close>

definition init_reply :: string where "init_reply = ''{id:1,result:{}}''"
definition tools_reply :: string where "tools_reply = ''{id:2,result:{tools:[read]}}''"
definition call_reply :: string where "call_reply = ''{id:3,result:found}''"
definition stray_reply :: string where "stray_reply = ''{id:9,result:{}}''"
definition second_reply :: string where "second_reply = ''{id:2,result:{}}''"

definition read_tool :: ToolDefinition where
  "read_tool = \<lparr>ToolName = ''read'', Description = ''Read a file'',
     InputSchema = JMap [(''type'', JStr ''object'')]\<rparr>"

definition example_codec :: codec where
  "example_codec =
     \<lparr>marshal = (\<lambda>req. Some (''{method:'' @ req_method req @ ''}'')),
      unmarshal_map = (\<lambda>line.
        if line = init_reply then Some [''id'' \<mapsto> JFloat 1, ''result'' \<mapsto> JMap []]
        else if line = tools_reply
        then Some [''id'' \<mapsto> JFloat 2,
                   ''result'' \<mapsto> JMap [(''tools'', JArr [JMap [(''name'', JStr ''read'')]])]]
        else if line = call_reply then Some [''id'' \<mapsto> JFloat 3, ''result'' \<mapsto> JStr ''found'']
        else if line = stray_reply then Some [''id'' \<mapsto> JFloat 9, ''result'' \<mapsto> JMap []]
        else if line = second_reply then Some [''id'' \<mapsto> JFloat 2, ''result'' \<mapsto> JMap []]
        else None),
      unmarshal_list = (\<lambda>line.
        if line = tools_reply then Some (None, [read_tool])
        else if line = init_reply \<or> line = stray_reply \<or> line = second_reply then Some (None, [])
        else None),
      unmarshal_call = (\<lambda>line.
        if line = call_reply then Some (None, JStr ''found'')
        else if line = init_reply \<or> line = stray_reply \<or> line = second_reply
        then Some (None, JMap [])
        else None),
      unmarshal_init = (\<lambda>line.
        if line = init_reply \<or> line = stray_reply \<or> line = tools_reply \<or> line = second_reply
        then Some (None, JNil)
        else None)\<rparr>"

definition quiet_world :: call_world where
  "quiet_world = \<lparr>write_result = (\<lambda>data. None), round_trip = (\<lambda>data. Inl ''connection refused''),
     inbound = [], deadline_wins = False, scanner = (\<lambda>buf line. (buf, []))\<rparr>"

text \<open>
  A scanner whose data sits at the front of its buffer: after each \<open>Scan\<close> the buffer
  starts with the line just read (as after \<open>bufio.Scanner\<close> has moved its data to the
  front and read on).
\<close>

definition front_scanner :: "string \<Rightarrow> string \<Rightarrow> string \<times> string" where
  "front_scanner buf line = ([], drop (length line) buf)"

definition fs_server :: MCPServer where
  "fs_server = \<lparr>Name = ''fs'', Command = ''fs-server'', Args = [], URL = [], Headers = [],
     Env = [], Timeout = 5\<rparr>"

text \<open>
  The session of \<open>fs_server\<close> after \<open>Connect\<close> and the locked prefix of three calls:
  ids 1, 2 and 3 wait on the channels 0, 1 and 2.
\<close>

definition three_pending :: MCPSession where
  "three_pending =
     (newSession fs_server)\<lparr>transport := StdioTransport, stdinCmd := True, reqID := 3,
        activeRequests := Some [1 \<mapsto> 0, 2 \<mapsto> 1, 3 \<mapsto> 2], chans := [None, None, None]\<rparr>"

text \<open>The same session after the locked prefix of one call: id 1 waits on channel 0.\<close>

definition one_pending :: MCPSession where
  "one_pending =
     (newSession fs_server)\<lparr>transport := StdioTransport, stdinCmd := True, reqID := 1,
        activeRequests := Some [1 \<mapsto> 0], chans := [None]\<rparr>"

text \<open>The sessions of \<open>fs_server\<close> and of an HTTP server after a successful \<open>Connect\<close>.\<close>

definition fs_connected :: MCPSession where
  "fs_connected =
     (newSession fs_server)\<lparr>transport := StdioTransport, stdinCmd := True,
        activeRequests := Some Map.empty\<rparr>"

definition web_server :: MCPServer where
  "web_server = \<lparr>Name = ''web'', Command = [], Args = [], URL = ''http://localhost:8080/mcp'',
     Headers = [], Env = [], Timeout = 30\<rparr>"

definition web_connected :: MCPSession where
  "web_connected =
     (newSession web_server)\<lparr>transport := HTTPTransport, httpClient := True,
        activeRequests := Some Map.empty\<rparr>"

text \<open>A transport on which every HTTP exchange runs into the client's timeout.\<close>

definition stalled_world :: call_world where
  "stalled_world = quiet_world\<lparr>round_trip :=
     (\<lambda>data. Inl ''context deadline exceeded (Client.Timeout exceeded while awaiting headers)'')\<rparr>"

text \<open>A descriptor with both a command and a URL, and one for a WebSocket server.\<close>

definition both_server :: MCPServer where
  "both_server = \<lparr>Name = ''both'', Command = ''fs-server'', Args = [],
     URL = ''http://localhost:8080/mcp'', Headers = [], Env = [], Timeout = 5\<rparr>"

definition sock_server :: MCPServer where
  "sock_server = \<lparr>Name = ''sock'', Command = [], Args = [], URL = ''ws://localhost:9000/mcp'',
     Headers = [], Env = [], Timeout = 5\<rparr>"

text \<open>
  A manager with one server, \<open>alpha\<close>, whose stdio session has completed two calls
  (\<open>initialize\<close> and \<open>tools/list\<close>).
\<close>

definition alpha_server :: MCPServer where
  "alpha_server = \<lparr>Name = ''alpha'', Command = ''alpha-server'', Args = [], URL = [],
     Headers = [], Env = [], Timeout = 5\<rparr>"

definition alpha_ready :: MCPSession where
  "alpha_ready =
     (newSession alpha_server)\<lparr>transport := StdioTransport, stdinCmd := True, reqID := 2,
        activeRequests := Some Map.empty, chans := [None, None], scanbuf := tools_reply,
        written := [''{method:initialize}'' @ [newline], ''{method:tools/list}'' @ [newline]]\<rparr>"

definition alpha_manager :: MCPServerManager where
  "alpha_manager = \<lparr>servers = [''alpha'' \<mapsto> alpha_ready]\<rparr>"

text \<open>
  The session of \<open>fs_server\<close> after \<open>Connect\<close> and \<open>Initialize\<close>, a manager holding it,
  and a world in which the peer answers the next call with the tool list.
\<close>

definition fs_ready :: MCPSession where
  "fs_ready =
     (newSession fs_server)\<lparr>transport := StdioTransport, stdinCmd := True, reqID := 1,
        activeRequests := Some Map.empty, chans := [None], scanbuf := init_reply,
        written := [''{method:initialize}'' @ [newline]]\<rparr>"

definition fs_manager :: MCPServerManager where
  "fs_manager = \<lparr>servers = [''fs'' \<mapsto> fs_ready]\<rparr>"

definition tools_world :: "string \<Rightarrow> call_world" where
  "tools_world name = quiet_world\<lparr>inbound := [tools_reply]\<rparr>"

text \<open>
  Three registered servers: \<open>fs\<close> (stdio) and \<open>web\<close> (HTTP) connect and answer
  \<open>initialize\<close>; the dial of \<open>sock\<close> (WebSocket) is refused.
\<close>

definition three_manager :: MCPServerManager where
  "three_manager = AddServer (AddServer (AddServer NewMCPServerManager fs_server) sock_server) web_server"

definition three_world :: "string \<Rightarrow> server_world" where
  "three_world name =
     (if name = ''fs''
      then \<lparr>connect_world = ConnectOK, init_world = quiet_world\<lparr>inbound := [init_reply]\<rparr>\<rparr>
      else if name = ''sock''
      then \<lparr>connect_world = DialError ''connection refused'', init_world = quiet_world\<rparr>
      else \<lparr>connect_world = ConnectOK,
            init_world = quiet_world\<lparr>round_trip := (\<lambda>data. Inr init_reply)\<rparr>\<rparr>)"

definition web_ready :: MCPSession where
  "web_ready =
     (newSession web_server)\<lparr>transport := HTTPTransport, httpClient := True, reqID := 1,
        activeRequests := Some [1 \<mapsto> 0], chans := [None], written := [''{method:initialize}'']\<rparr>"

definition sock_failed :: MCPSession where
  "sock_failed = (newSession sock_server)\<lparr>transport := WebSocketTransport\<rparr>"

section \<open>The string helpers against the standard library\<close>

lemma indexOf_match_iff:
  "indexOf_match s substr i j \<longleftrightarrow> (\<forall>k. j \<le> k \<and> k < length substr \<longrightarrow> s ! (i + k) = substr ! k)"
proof (induction s substr i j rule: indexOf_match.induct)
  case (1 s substr i j)
  show ?case
  proof (cases "j < length substr")
    case False
    then show ?thesis by (subst indexOf_match.simps) auto
  next
    case True
    show ?thesis
    proof (cases "s ! (i + j) = substr ! j")
      case False
      with True show ?thesis by (subst indexOf_match.simps) auto
    next
      case eq: True
      have "indexOf_match s substr i j = indexOf_match s substr i (j + 1)"
        using True eq by (subst indexOf_match.simps) simp
      also have "\<dots> \<longleftrightarrow> (\<forall>k. j + 1 \<le> k \<and> k < length substr \<longrightarrow> s ! (i + k) = substr ! k)"
        using "1.IH" True eq by simp
      also have "\<dots> \<longleftrightarrow> (\<forall>k. j \<le> k \<and> k < length substr \<longrightarrow> s ! (i + k) = substr ! k)"
        using eq by (metis Suc_eq_plus1 Suc_leI le_neq_implies_less Suc_leD)
      finally show ?thesis .
    qed
  qed
qed

lemma indexOf_match_occurs:
  assumes "i + length substr \<le> length s"
  shows "indexOf_match s substr i 0 \<longleftrightarrow> occurs_at s substr i"
  using assms
  by (auto simp: indexOf_match_iff occurs_at_def list_eq_iff_nth_eq)

lemma occurs_at_bound: "occurs_at s substr k \<Longrightarrow> k + length substr \<le> length s"
  by (simp add: occurs_at_def)

lemma indexOf_loop_find:
  "indexOf_loop s substr i =
     (case find (occurs_at s substr) [i..<Suc (length s)] of None \<Rightarrow> - 1 | Some k \<Rightarrow> int k)"
proof (induction s substr i rule: indexOf_loop.induct)
  case (1 s substr i)
  show ?case
  proof (cases "int i \<le> int (length s) - int (length substr)")
    case False
    then have "\<And>k. i \<le> k \<Longrightarrow> \<not> occurs_at s substr k"
      using occurs_at_bound [of s substr] by fastforce
    then have "find (occurs_at s substr) [i..<Suc (length s)] = None"
      by (auto simp: find_None_iff)
    with False show ?thesis by (subst indexOf_loop.simps) simp
  next
    case True
    then have b: "i + length substr \<le> length s" by linarith
    then have up: "[i..<Suc (length s)] = i # [i + 1..<Suc (length s)]"
      by (simp add: upt_conv_Cons)
    show ?thesis
    proof (cases "indexOf_match s substr i 0")
      case m: True
      then have "occurs_at s substr i" using b by (simp add: indexOf_match_occurs)
      with True m up show ?thesis by (subst indexOf_loop.simps) simp
    next
      case m: False
      then have "\<not> occurs_at s substr i" using b by (simp add: indexOf_match_occurs)
      with True m up "1.IH" show ?thesis by (subst indexOf_loop.simps) simp
    qed
  qed
qed

lemma indexOf_strings_Index: "indexOf s substr = strings_Index s substr"
  by (simp add: indexOf_def strings_Index_def indexOf_loop_find)

lemma hasPrefix_strings_HasPrefix: "hasPrefix s p = strings_HasPrefix s p"
proof
  assume "hasPrefix s p"
  then have "s = p @ drop (length p) s"
    by (metis hasPrefix_def append_take_drop_id)
  then show "strings_HasPrefix s p"
    unfolding strings_HasPrefix_def by (rule prefixI)
next
  assume "strings_HasPrefix s p"
  then show "hasPrefix s p"
    by (auto simp: hasPrefix_def strings_HasPrefix_def prefix_def)
qed

lemma find_occurs_drop0: "find (occurs_at s sep) [0..<Suc (length s)] = Some i \<Longrightarrow> i + length sep \<le> length s"
  by (auto simp: find_Some_iff occurs_at_def)

lemma splitN_2: "splitN s sep 2 = strings_SplitN2 s sep"
proof -
  have l2: "\<And>st r. splitN_loop s sep 2 1 st r = r @ [drop st s]"
    by (subst splitN_loop.simps) simp
  show ?thesis
    apply (simp add: splitN_def strings_SplitN2_def)
    apply (subst splitN_loop.simps)
    apply (simp add: Let_def l2 indexOf_strings_Index strings_Index_def split: option.splits)
    done
qed

text \<open>
  Claim C10. The hand-rolled helpers agree with the standard-library functions they
  replace: for every string and every non-empty separator, \<open>splitN s sep 2\<close> is the split
  at the first occurrence of \<open>sep\<close> (or \<open>[s]\<close> when there is none), \<open>indexOf\<close> is
  \<open>strings.Index\<close> and \<open>hasPrefix\<close> is \<open>strings.HasPrefix\<close>.
\<close>

theorem string_helpers_match_stdlib:
  "(sep \<noteq> [] \<longrightarrow> splitN s sep 2 = strings_SplitN2 s sep) \<and>
   indexOf t substr = strings_Index t substr \<and>
   hasPrefix u p = strings_HasPrefix u p"
  by (simp add: splitN_2 indexOf_strings_Index hasPrefix_strings_HasPrefix)

theorem string_helpers_match_stdlib_witness:
  "''_'' \<noteq> [] \<and> splitN ''alpha_search'' ''_'' 2 = [''alpha'', ''search''] \<and>
   indexOf ''alpha_search'' ''_'' = 5 \<and> 
   hasPrefix ''mcp_alpha_search'' ''mcp_'' \<and> \<not> strings_HasPrefix ''search'' ''mcp_''"
proof -
  have a: "strings_SplitN2 ''alpha_search'' ''_'' = [''alpha'', ''search'']" by code_simp
  have b: "strings_Index ''alpha_search'' ''_'' = 5" by code_simp
  have c: "strings_Index ''search'' ''_'' = - 1" by code_simp
  have d: "strings_HasPrefix ''mcp_alpha_search'' ''mcp_''" by code_simp
  have e: "\<not> strings_HasPrefix ''search'' ''mcp_''" by code_simp
  show ?thesis
    using string_helpers_match_stdlib [of "''_''" "''alpha_search''" "''alpha_search''" "''_''" "''mcp_alpha_search''" "''mcp_''"]
      a b c d e by simp
qed

section \<open>The readers\<close>

subsection \<open>One payload\<close>

lemma handleResponse_cases:
  "handleResponse cd ms line =
     (case response_id cd (raw_bytes ms line) of
        None \<Rightarrow> Returns ms
      | Some k \<Rightarrow>
          (case lookupRequest ms k of
             None \<Rightarrow> Returns ms
           | Some c \<Rightarrow> obind (chan_send ms c line) (\<lambda>ms'. Returns (deleteRequest ms' k))))"
  by (simp add: handleResponse_def response_id_def Let_def split: option.splits jvalue.splits)

lemma readStdioResponses_loop:
  "readStdioResponses cd scan ms tokens = read_loop cd (stdio_prep scan) ms tokens"
proof (induction tokens arbitrary: ms)
  case Nil
  show ?case by simp
next
  case (Cons token rest)
  show ?case
    by (cases "scan (scanbuf ms) token") (simp add: stdio_prep_def Cons.IH)
qed

lemma readWebSocketResponses_loop:
  "readWebSocketResponses cd ms messages = read_loop cd websocket_prep ms messages"
proof (induction messages arbitrary: ms)
  case Nil
  show ?case by simp
next
  case (Cons message rest)
  show ?case by (simp add: websocket_prep_def Cons.IH)
qed

lemma stdio_prep_bytes:
  assumes "stdio_prep scan ms token = (ms1, line)"
  shows "raw_bytes ms1 line = token" "\<exists>off. line = ScanSlice off (length token)"
    "\<exists>buf. ms1 = ms\<lparr>scanbuf := buf\<rparr>"
  using assms by (auto simp: stdio_prep_def raw_bytes_def split: prod.splits)

lemma websocket_prep_bytes:
  assumes "websocket_prep ms message = (ms1, line)"
  shows "raw_bytes ms1 line = message" "line = OwnBytes message" "\<exists>buf. ms1 = ms\<lparr>scanbuf := buf\<rparr>"
proof -
  from assms have e: "ms1 = ms" "line = OwnBytes message" by (simp_all add: websocket_prep_def)
  show "raw_bytes ms1 line = message" "line = OwnBytes message" using e by (simp_all add: raw_bytes_def)
  have "ms = ms\<lparr>scanbuf := scanbuf ms\<rparr>" by simp
  with e(1) show "\<exists>buf. ms1 = ms\<lparr>scanbuf := buf\<rparr>" by blast
qed

lemma raw_bytes_OwnBytes [simp]: "raw_bytes ms (OwnBytes bytes) = bytes"
  by (simp add: raw_bytes_def)

lemma pending_ok_scanbuf: "pending_ok (ms\<lparr>scanbuf := x\<rparr>) = pending_ok ms"
  by (simp add: pending_ok_def)

lemma lookupRequest_scanbuf: "lookupRequest (ms\<lparr>scanbuf := x\<rparr>) k = lookupRequest ms k"
  by (simp add: lookupRequest_def)

lemma pending_okD:
  assumes "pending_ok ms" "lookupRequest ms k = Some c"
  shows "c < length (chans ms)" "chans ms ! c = None"
  using assms by (auto simp: pending_ok_def lookupRequest_def)

lemma pending_ok_inj:
  assumes "pending_ok ms" "lookupRequest ms k = Some c" "lookupRequest ms k' = Some c"
  shows "k = k'"
proof -
  from assms(1) obtain m where m: "activeRequests ms = Some m" "inj_on m (dom m)"
    by (auto simp: pending_ok_def)
  from assms(2,3) m(1) have "m k = Some c" "m k' = Some c"
    by (simp_all add: lookupRequest_def)
  with m(2) show ?thesis by (metis domI inj_onD)
qed

lemma handleResponse_match:
  assumes "pending_ok ms" "response_id cd (raw_bytes ms line) = Some k" "lookupRequest ms k = Some c"
  shows "handleResponse cd ms line = Returns (deliver ms k c line)"
  using assms pending_okD [OF assms(1,3)]
  by (simp add: handleResponse_cases chan_send_def deliver_def)

lemma handleResponse_drop:
  assumes "response_id cd (raw_bytes ms line) = None \<or>
           (\<exists>k. response_id cd (raw_bytes ms line) = Some k \<and> lookupRequest ms k = None)"
  shows "handleResponse cd ms line = Returns ms"
  using assms by (auto simp: handleResponse_cases)

lemma lookup_deliver:
  "lookupRequest (deliver ms k c line) k' = (if k' = k then None else lookupRequest ms k')"
  by (simp add: deliver_def deleteRequest_def lookupRequest_def split: option.splits)

lemma chans_deliver: "chans (deliver ms k c line) = (chans ms)[c := Some line]"
  by (simp add: deliver_def deleteRequest_def)

lemma pending_ok_deliver:
  assumes "pending_ok ms" "lookupRequest ms k = Some c"
  shows "pending_ok (deliver ms k c line)"
proof -
  from assms(1) obtain m where m: "activeRequests ms = Some m" "inj_on m (dom m)"
    "\<forall>k c. m k = Some c \<longrightarrow> c < length (chans ms) \<and> chans ms ! c = None"
    by (auto simp: pending_ok_def)
  from assms(2) m(1) have mk: "m k = Some c" by (simp add: lookupRequest_def)
  let ?m' = "m(k := None)"
  have a: "activeRequests (deliver ms k c line) = Some ?m'"
    using m(1) by (simp add: deliver_def deleteRequest_def)
  have b: "inj_on ?m' (dom ?m')"
    using m(2) by (auto simp: inj_on_def dom_def split: if_splits)
  have c: "\<forall>k' c'. ?m' k' = Some c' \<longrightarrow>
      c' < length (chans (deliver ms k c line)) \<and> chans (deliver ms k c line) ! c' = None"
  proof (intro allI impI)
    fix k' c' assume h: "?m' k' = Some c'"
    then have kk: "k' \<noteq> k" and mk': "m k' = Some c'" by (auto split: if_splits)
    have "c' \<noteq> c" using m(2) mk mk' kk by (metis domI inj_onD)
    with m(3) mk' show "c' < length (chans (deliver ms k c line)) \<and> chans (deliver ms k c line) ! c' = None"
      by (simp add: chans_deliver)
  qed
  show ?thesis unfolding pending_ok_def using a b c by blast
qed

subsection \<open>A sequence of payloads\<close>

text \<open>
  By induction on the payloads: what a reader has done with each pending call once
  it has handled them all. \<open>Q\<close> is what is known of the slice sent for a payload.
  Channels of no pending call are left alone.
\<close>

lemma read_loop_char:
  assumes prep: "\<And>ms t ms1 line. prep ms t = (ms1, line) \<Longrightarrow>
      raw_bytes ms1 line = t \<and> Q t line \<and> (\<exists>buf. ms1 = ms\<lparr>scanbuf := buf\<rparr>)"
    and "pending_ok ms"
  shows "\<exists>ms'. read_loop cd prep ms lines = Returns ms' \<and> pending_ok ms' \<and>
           length (chans ms') = length (chans ms) \<and>
           (\<forall>k c. lookupRequest ms k = Some c \<longrightarrow>
              (case find (\<lambda>l. response_id cd l = Some k) lines of
                 Some l \<Rightarrow> lookupRequest ms' k = None \<and> (\<exists>line. chans ms' ! c = Some line \<and> Q l line)
               | None \<Rightarrow> lookupRequest ms' k = Some c \<and> chans ms' ! c = None)) \<and>
           (\<forall>k. lookupRequest ms k = None \<longrightarrow> lookupRequest ms' k = None) \<and>
           (\<forall>c < length (chans ms). (\<forall>k. lookupRequest ms k \<noteq> Some c) \<longrightarrow> chans ms' ! c = chans ms ! c)"
  using assms(2)
proof (induction lines arbitrary: ms)
  case Nil
  then show ?case by (auto dest: pending_okD)
next
  case (Cons tok rest)
  obtain ms0 line where p: "prep ms tok = (ms0, line)" by (cases "prep ms tok")
  from prep [OF p] obtain buf where bytes: "raw_bytes ms0 line = tok" and q: "Q tok line"
    and ms0: "ms0 = ms\<lparr>scanbuf := buf\<rparr>" by blast
  have ok: "pending_ok ms0" using Cons.prems by (simp add: ms0 pending_ok_scanbuf)
  have lk: "\<And>k. lookupRequest ms0 k = lookupRequest ms k"
    by (simp add: ms0 lookupRequest_scanbuf)
  have ch: "chans ms0 = chans ms"
    by (simp add: ms0)
  show ?case
  proof (cases "\<exists>k c. response_id cd tok = Some k \<and> lookupRequest ms k = Some c")
    case False
    then have drop: "handleResponse cd ms0 line = Returns ms0"
      by (intro handleResponse_drop) (cases "response_id cd tok"; auto simp: bytes lk)
    from Cons.IH [OF ok] obtain ms' where IH:
      "read_loop cd prep ms0 rest = Returns ms'" "pending_ok ms'"
      "length (chans ms') = length (chans ms0)"
      "\<forall>k c. lookupRequest ms0 k = Some c \<longrightarrow>
              (case find (\<lambda>l. response_id cd l = Some k) rest of
                 Some l \<Rightarrow> lookupRequest ms' k = None \<and> (\<exists>line. chans ms' ! c = Some line \<and> Q l line)
               | None \<Rightarrow> lookupRequest ms' k = Some c \<and> chans ms' ! c = None)"
      "\<forall>k. lookupRequest ms0 k = None \<longrightarrow> lookupRequest ms' k = None"
      "\<forall>c < length (chans ms0). (\<forall>k. lookupRequest ms0 k \<noteq> Some c) \<longrightarrow> chans ms' ! c = chans ms0 ! c"
      by blast
    have skip: "\<And>k c. lookupRequest ms k = Some c \<Longrightarrow>
        find (\<lambda>l. response_id cd l = Some k) (tok # rest) = find (\<lambda>l. response_id cd l = Some k) rest"
      using False by auto
    have run: "read_loop cd prep ms (tok # rest) = Returns ms'"
      using p drop IH(1) by simp
    have len: "length (chans ms') = length (chans ms)"
      using IH(3) by (simp add: ch)
    have pend: "\<forall>k c. lookupRequest ms k = Some c \<longrightarrow>
              (case find (\<lambda>l. response_id cd l = Some k) (tok # rest) of
                 Some l \<Rightarrow> lookupRequest ms' k = None \<and> (\<exists>line. chans ms' ! c = Some line \<and> Q l line)
               | None \<Rightarrow> lookupRequest ms' k = Some c \<and> chans ms' ! c = None)"
    proof (intro allI impI)
      fix k c assume kc: "lookupRequest ms k = Some c"
      then have "lookupRequest ms0 k = Some c" by (simp add: lk)
      with IH(4) have "case find (\<lambda>l. response_id cd l = Some k) rest of
                 Some l \<Rightarrow> lookupRequest ms' k = None \<and> (\<exists>line. chans ms' ! c = Some line \<and> Q l line)
               | None \<Rightarrow> lookupRequest ms' k = Some c \<and> chans ms' ! c = None" by blast
      then show "case find (\<lambda>l. response_id cd l = Some k) (tok # rest) of
                 Some l \<Rightarrow> lookupRequest ms' k = None \<and> (\<exists>line. chans ms' ! c = Some line \<and> Q l line)
               | None \<Rightarrow> lookupRequest ms' k = Some c \<and> chans ms' ! c = None"
        by (simp only: skip [OF kc])
    qed
    have none: "\<forall>k. lookupRequest ms k = None \<longrightarrow> lookupRequest ms' k = None"
      using IH(5) by (simp add: lk)
    have frame: "\<forall>c < length (chans ms). (\<forall>k. lookupRequest ms k \<noteq> Some c) \<longrightarrow> chans ms' ! c = chans ms ! c"
      using IH(6) by (simp add: lk ch)
    show ?thesis using run IH(2) len pend none frame by blast
  next
    case True
    then obtain k0 c0 where hit: "response_id cd tok = Some k0" "lookupRequest ms0 k0 = Some c0"
      using lk by auto
    let ?ms1 = "deliver ms0 k0 c0 line"
    have step: "handleResponse cd ms0 line = Returns ?ms1"
      using ok hit by (intro handleResponse_match) (simp_all add: bytes)
    have ok1: "pending_ok ?ms1" using ok hit(2) by (rule pending_ok_deliver)
    have c0: "c0 < length (chans ms0)" "chans ms0 ! c0 = None"
      using pending_okD [OF ok hit(2)] by auto
    from Cons.IH [OF ok1] obtain ms' where IH:
      "read_loop cd prep ?ms1 rest = Returns ms'" "pending_ok ms'"
      "length (chans ms') = length (chans ?ms1)"
      "\<forall>k c. lookupRequest ?ms1 k = Some c \<longrightarrow>
              (case find (\<lambda>l. response_id cd l = Some k) rest of
                 Some l \<Rightarrow> lookupRequest ms' k = None \<and> (\<exists>line. chans ms' ! c = Some line \<and> Q l line)
               | None \<Rightarrow> lookupRequest ms' k = Some c \<and> chans ms' ! c = None)"
      "\<forall>k. lookupRequest ?ms1 k = None \<longrightarrow> lookupRequest ms' k = None"
      "\<forall>c < length (chans ?ms1). (\<forall>k. lookupRequest ?ms1 k \<noteq> Some c) \<longrightarrow> chans ms' ! c = chans ?ms1 ! c"
      by blast
    have len1: "length (chans ?ms1) = length (chans ms0)" by (simp add: chans_deliver)
    have run: "read_loop cd prep ms (tok # rest) = Returns ms'"
      using p step IH(1) by simp
    have free_c0: "\<forall>k. lookupRequest ?ms1 k \<noteq> Some c0"
    proof
      fix k show "lookupRequest ?ms1 k \<noteq> Some c0"
      proof
        assume a: "lookupRequest ?ms1 k = Some c0"
        then have "k \<noteq> k0" "lookupRequest ms0 k = Some c0"
          by (auto simp: lookup_deliver split: if_splits)
        with pending_ok_inj [OF ok _ hit(2)] show False by blast
      qed
    qed
    have at_c0: "chans ms' ! c0 = Some line"
      using IH(6) free_c0 c0(1) len1 by (simp add: chans_deliver)
    have gone_k0: "lookupRequest ms' k0 = None"
      using IH(5) by (simp add: lookup_deliver)
    have pend: "\<forall>k c. lookupRequest ms k = Some c \<longrightarrow>
              (case find (\<lambda>l. response_id cd l = Some k) (tok # rest) of
                 Some l \<Rightarrow> lookupRequest ms' k = None \<and> (\<exists>line. chans ms' ! c = Some line \<and> Q l line)
               | None \<Rightarrow> lookupRequest ms' k = Some c \<and> chans ms' ! c = None)"
    proof (intro allI impI)
      fix k c assume "lookupRequest ms k = Some c"
      then have kc: "lookupRequest ms0 k = Some c" by (simp add: lk)
      show "case find (\<lambda>l. response_id cd l = Some k) (tok # rest) of
                 Some l \<Rightarrow> lookupRequest ms' k = None \<and> (\<exists>line. chans ms' ! c = Some line \<and> Q l line)
               | None \<Rightarrow> lookupRequest ms' k = Some c \<and> chans ms' ! c = None"
      proof (cases "k = k0")
        case True
        with kc hit(2) have "c = c0" by simp
        with True hit(1) at_c0 gone_k0 q show ?thesis by simp
      next
        case False
        then have "lookupRequest ?ms1 k = Some c" using kc by (simp add: lookup_deliver)
        with IH(4) have "case find (\<lambda>l. response_id cd l = Some k) rest of
                 Some l \<Rightarrow> lookupRequest ms' k = None \<and> (\<exists>line. chans ms' ! c = Some line \<and> Q l line)
               | None \<Rightarrow> lookupRequest ms' k = Some c \<and> chans ms' ! c = None" by blast
        moreover have "find (\<lambda>l. response_id cd l = Some k) (tok # rest)
            = find (\<lambda>l. response_id cd l = Some k) rest"
          using False hit(1) by simp
        ultimately show ?thesis by simp
      qed
    qed
    have none: "\<forall>k. lookupRequest ms k = None \<longrightarrow> lookupRequest ms' k = None"
      using IH(5) by (simp add: lookup_deliver lk)
    have frame: "\<forall>c < length (chans ms). (\<forall>k. lookupRequest ms k \<noteq> Some c) \<longrightarrow> chans ms' ! c = chans ms ! c"
    proof (intro allI impI)
      fix c assume c: "c < length (chans ms)" and np: "\<forall>k. lookupRequest ms k \<noteq> Some c"
      from np hit(2) have ne: "c \<noteq> c0" by (auto simp: lk)
      from np have "\<forall>k. lookupRequest ?ms1 k \<noteq> Some c" by (simp add: lookup_deliver lk)
      with IH(6) c len1 have "chans ms' ! c = chans ?ms1 ! c" by (simp add: ch)
      with ne show "chans ms' ! c = chans ms ! c" by (simp add: chans_deliver ch)
    qed
    have len: "length (chans ms') = length (chans ms)"
      using IH(3) len1 by (simp add: ch)
    show ?thesis using run IH(2) len pend none frame by blast
  qed
qed

lemma stdio_prep_ok:
  "stdio_prep scan ms t = (ms1, line) \<Longrightarrow>
     raw_bytes ms1 line = t \<and> (\<exists>off. line = ScanSlice off (length t)) \<and>
     (\<exists>buf. ms1 = ms\<lparr>scanbuf := buf\<rparr>)"
  using stdio_prep_bytes by blast

lemma websocket_prep_ok:
  "websocket_prep ms t = (ms1, line) \<Longrightarrow>
     raw_bytes ms1 line = t \<and> line = OwnBytes t \<and> (\<exists>buf. ms1 = ms\<lparr>scanbuf := buf\<rparr>)"
  using websocket_prep_bytes by blast

lemma stdio_reader_char:
  assumes "pending_ok ms"
  shows "\<exists>ms'. readStdioResponses cd scan ms lines = Returns ms' \<and> pending_ok ms' \<and>
           length (chans ms') = length (chans ms) \<and>
           (\<forall>k c. lookupRequest ms k = Some c \<longrightarrow>
              (case find (\<lambda>l. response_id cd l = Some k) lines of
                 Some l \<Rightarrow> lookupRequest ms' k = None \<and>
                   (\<exists>line. chans ms' ! c = Some line \<and> (\<exists>off. line = ScanSlice off (length l)))
               | None \<Rightarrow> lookupRequest ms' k = Some c \<and> chans ms' ! c = None)) \<and>
           (\<forall>k. lookupRequest ms k = None \<longrightarrow> lookupRequest ms' k = None) \<and>
           (\<forall>c < length (chans ms). (\<forall>k. lookupRequest ms k \<noteq> Some c) \<longrightarrow> chans ms' ! c = chans ms ! c)"
  unfolding readStdioResponses_loop
  by (rule read_loop_char [where Q = "\<lambda>t line. \<exists>off. line = ScanSlice off (length t)",
        OF stdio_prep_ok assms])

lemma websocket_reader_char:
  assumes "pending_ok ms"
  shows "\<exists>ms'. readWebSocketResponses cd ms lines = Returns ms' \<and> pending_ok ms' \<and>
           length (chans ms') = length (chans ms) \<and>
           (\<forall>k c. lookupRequest ms k = Some c \<longrightarrow>
              (case find (\<lambda>l. response_id cd l = Some k) lines of
                 Some l \<Rightarrow> lookupRequest ms' k = None \<and>
                   (\<exists>line. chans ms' ! c = Some line \<and> line = OwnBytes l)
               | None \<Rightarrow> lookupRequest ms' k = Some c \<and> chans ms' ! c = None)) \<and>
           (\<forall>k. lookupRequest ms k = None \<longrightarrow> lookupRequest ms' k = None) \<and>
           (\<forall>c < length (chans ms). (\<forall>k. lookupRequest ms k \<noteq> Some c) \<longrightarrow> chans ms' ! c = chans ms ! c)"
  unfolding readWebSocketResponses_loop
  by (rule read_loop_char [where Q = "\<lambda>t line. line = OwnBytes t", OF websocket_prep_ok assms])

section \<open>Registering and sending\<close>

lemma registerRequest_Some:
  assumes "activeRequests ms = Some m"
  shows "registerRequest ms =
     Returns (reqID ms + 1, length (chans ms),
       ms\<lparr>reqID := reqID ms + 1, chans := chans ms @ [None],
          activeRequests := Some (m(reqID ms + 1 \<mapsto> length (chans ms)))\<rparr>)"
  using assms by (simp add: registerRequest_def make_chan_def Let_def)

lemma registerRequest_nil:
  assumes "activeRequests ms = None"
  shows "registerRequest ms = Panics ''assignment to entry in nil map''"
  using assms by (simp add: registerRequest_def make_chan_def Let_def)

lemma pending_ok_registered:
  assumes "pending_ok ms" "activeRequests ms = Some m"
  shows "pending_ok (registered ms m)"
proof -
  from assms have inj: "inj_on m (dom m)"
    and val: "\<forall>k c. m k = Some c \<longrightarrow> c < length (chans ms) \<and> chans ms ! c = None"
    by (auto simp: pending_ok_def)
  let ?k = "reqID ms + 1" and ?c = "length (chans ms)"
  let ?m' = "m(?k \<mapsto> ?c)"
  have a: "activeRequests (registered ms m) = Some ?m'" by (simp add: registered_def)
  have fresh: "\<And>z. m z \<noteq> Some ?c"
  proof
    fix z assume "m z = Some ?c"
    with val have "?c < ?c" by blast
    then show False by simp
  qed
  have b: "inj_on ?m' (dom ?m')"
  proof (rule inj_onI)
    fix x y assume x: "x \<in> dom ?m'" and y: "y \<in> dom ?m'" and e: "?m' x = ?m' y"
    show "x = y"
    proof (cases "x = ?k")
      case True
      with e have "?m' y = Some ?c" by simp
      with fresh [of y] have "y = ?k" by (simp split: if_splits)
      with True show ?thesis by simp
    next
      case False
      with x have mx: "?m' x = m x" "x \<in> dom m" by auto
      show ?thesis
      proof (cases "y = ?k")
        case True
        with e mx have "m x = Some ?c" by simp
        with fresh [of x] show ?thesis by simp
      next
        case ny: False
        with y have "?m' y = m y" "y \<in> dom m" by auto
        with e mx inj show ?thesis by (simp add: inj_on_def)
      qed
    qed
  qed
  have c: "\<forall>k c. ?m' k = Some c \<longrightarrow>
      c < length (chans (registered ms m)) \<and> chans (registered ms m) ! c = None"
  proof (intro allI impI)
    fix k c assume h: "?m' k = Some c"
    show "c < length (chans (registered ms m)) \<and> chans (registered ms m) ! c = None"
    proof (cases "k = ?k")
      case True
      with h show ?thesis by (auto simp: registered_def nth_append)
    next
      case False
      with h have "m k = Some c" by simp
      with val have "c < length (chans ms)" "chans ms ! c = None" by blast+
      then show ?thesis by (simp add: registered_def nth_append)
    qed
  qed
  show ?thesis unfolding pending_ok_def using a b c by blast
qed

lemma pending_ok_written: "pending_ok (ms\<lparr>written := x\<rparr>) = pending_ok ms"
  by (simp add: pending_ok_def)

lemma pending_ok_empty: "activeRequests ms = Some Map.empty \<Longrightarrow> pending_ok ms"
  by (simp add: pending_ok_def)

lemma sendRequest_expand:
  assumes "activeRequests ms = Some m"
  shows "sendRequest cd w ms method params =
    (let id' = reqID ms + 1; ch = length (chans ms); ms1 = registered ms m;
         req = \<lparr>req_id = id', req_method = method, req_params = params\<rparr>
     in case transport ms of
         StdioTransport \<Rightarrow>
           (case sendStdioRequest cd w req ms1 of
              (sendErr, ms2) \<Rightarrow> afterSend cd w ms2 id' ch sendErr)
       | WebSocketTransport \<Rightarrow>
           (case sendWebSocketRequest cd w req ms1 of
              (sendErr, ms2) \<Rightarrow> afterSend cd w ms2 id' ch sendErr)
       | HTTPTransport \<Rightarrow>
           obind (sendHTTPRequest cd w req ch ms1)
             (\<lambda>(sendErr, ms2). afterSend cd w ms2 id' ch sendErr)
       | NoTransport \<Rightarrow> Returns (Inl (UnsupportedTransport NoTransport), ms1))"
  using assms
  by (simp add: sendRequest_def registerRequest_Some registered_def Let_def)

lemma sendStdioRequest_cases:
  "sendStdioRequest cd w req ms = (Some e, ms2) \<Longrightarrow> ms2 = ms"
  "sendStdioRequest cd w req ms = (None, ms2) \<Longrightarrow> \<exists>data. ms2 = ms\<lparr>written := written ms @ [data]\<rparr>"
  by (auto simp: sendStdioRequest_def Let_def split: option.splits)

lemma sendWebSocketRequest_cases:
  "sendWebSocketRequest cd w req ms = (Some e, ms2) \<Longrightarrow> ms2 = ms"
  "sendWebSocketRequest cd w req ms = (None, ms2) \<Longrightarrow> \<exists>data. ms2 = ms\<lparr>written := written ms @ [data]\<rparr>"
  by (auto simp: sendWebSocketRequest_def Let_def split: option.splits)

lemma sendHTTPRequest_cases:
  assumes "chans ms ! ch = None"
  shows "(\<exists>e ms2. sendHTTPRequest cd w req ch ms = Returns (Some e, ms2) \<and>
            activeRequests ms2 = activeRequests ms \<and> chans ms2 = chans ms \<and>
            reqID ms2 = reqID ms \<and> Server ms2 = Server ms \<and> transport ms2 = transport ms)
       \<or> (\<exists>data body. marshal cd req = Some data \<and> round_trip w data = Inr body \<and>
            unmarshal_map cd body \<noteq> None \<and>
            sendHTTPRequest cd w req ch ms =
              Returns (None, ms\<lparr>written := written ms @ [data], chans := (chans ms)[ch := Some (OwnBytes body)]\<rparr>))"
  using assms
  by (auto simp: sendHTTPRequest_def Let_def chan_send_def split: option.splits sum.splits)

lemma activeRequests_deleteRequest:
  "activeRequests ms = Some m \<Longrightarrow> activeRequests (deleteRequest ms k) = Some (m(k := None))"
  by (simp add: deleteRequest_def)

lemma map_upd_del: "m k = None \<Longrightarrow> (m(k \<mapsto> c))(k := None) = m"
  by (rule ext) simp

lemma pending_ok_deleteRequest:
  assumes "pending_ok ms"
  shows "pending_ok (deleteRequest ms k)"
proof -
  from assms obtain m where m: "activeRequests ms = Some m" "inj_on m (dom m)"
    "\<forall>k c. m k = Some c \<longrightarrow> c < length (chans ms) \<and> chans ms ! c = None"
    by (auto simp: pending_ok_def)
  have "inj_on (m(k := None)) (dom (m(k := None)))"
    using m(2) by (auto simp: inj_on_def dom_def split: if_splits)
  moreover have "\<forall>k' c. (m(k := None)) k' = Some c \<longrightarrow>
      c < length (chans (deleteRequest ms k)) \<and> chans (deleteRequest ms k) ! c = None"
    using m(3) by (auto simp: deleteRequest_def split: if_splits)
  ultimately show ?thesis
    unfolding pending_ok_def using activeRequests_deleteRequest [OF m(1)] by blast
qed

lemma pending_ok_clear:
  assumes "pending_ok ms"
  shows "pending_ok (ms\<lparr>chans := (chans ms)[c := None]\<rparr>)"
proof -
  from assms obtain m where m: "activeRequests ms = Some m" "inj_on m (dom m)"
    "\<forall>k c. m k = Some c \<longrightarrow> c < length (chans ms) \<and> chans ms ! c = None"
    by (auto simp: pending_ok_def)
  have "\<forall>k c'. m k = Some c' \<longrightarrow> c' < length ((chans ms)[c := None]) \<and> (chans ms)[c := None] ! c' = None"
  proof (intro allI impI)
    fix k c' assume "m k = Some c'"
    with m(3) have "c' < length (chans ms)" "chans ms ! c' = None" by blast+
    then show "c' < length ((chans ms)[c := None]) \<and> (chans ms)[c := None] ! c' = None"
      by (cases "c' = c") simp_all
  qed
  then show ?thesis unfolding pending_ok_def using m(1,2) by simp
qed

lemma pending_ok_awaitResponse:
  assumes "pending_ok ms"
  shows "pending_ok (snd (awaitResponse d ms k c))"
  using pending_ok_deleteRequest [OF assms, of k] pending_ok_clear [OF assms, of c]
  by (simp add: awaitResponse_def split: option.splits)

section \<open>Every call on a connected session returns\<close>

lemma background_reader_returns:
  assumes "pending_ok ms"
  shows "\<exists>ms'. background_reader cd w ms = Returns ms' \<and> pending_ok ms'"
proof -
  from stdio_reader_char [OF assms, of cd "scanner w" "inbound w"] obtain ms1 where
    a: "readStdioResponses cd (scanner w) ms (inbound w) = Returns ms1" "pending_ok ms1" by blast
  from websocket_reader_char [OF assms, of cd "inbound w"] obtain ms2 where
    b: "readWebSocketResponses cd ms (inbound w) = Returns ms2" "pending_ok ms2" by blast
  from a b assms show ?thesis
    by (cases "transport ms") (simp_all add: background_reader_def)
qed

lemma afterSend_returns:
  assumes "pending_ok ms"
  shows "\<exists>r ms'. afterSend cd w ms k c sendErr = Returns (r, ms') \<and> pending_ok ms'"
proof (cases sendErr)
  case (Some e)
  then show ?thesis using pending_ok_deleteRequest [OF assms, of k]
    by (simp add: afterSend_def)
next
  case None
  from background_reader_returns [OF assms, of cd w] obtain ms1 where
    r: "background_reader cd w ms = Returns ms1" "pending_ok ms1" by blast
  obtain x ms2 where a: "awaitResponse (deadline_wins w) ms1 k c = (x, ms2)"
    by (cases "awaitResponse (deadline_wins w) ms1 k c")
  with pending_ok_awaitResponse [OF r(2), of "deadline_wins w" k c] have "pending_ok ms2" by simp
  with None r(1) a show ?thesis by (simp add: afterSend_def)
qed

lemma pending_ok_http_delivered:
  assumes "pending_ok ms" "activeRequests ms = Some m"
  shows "pending_ok (deleteRequest
           ((registered ms m)\<lparr>written := wr, chans := (chans (registered ms m))[length (chans ms) := Some (OwnBytes body)]\<rparr>)
           (reqID ms + 1))"
proof -
  from assms obtain inj: "inj_on m (dom m)" and
    val: "\<forall>k c. m k = Some c \<longrightarrow> c < length (chans ms) \<and> chans ms ! c = None"
    by (auto simp: pending_ok_def)
  let ?k = "reqID ms + 1"
  let ?s = "deleteRequest
           ((registered ms m)\<lparr>written := wr, chans := (chans (registered ms m))[length (chans ms) := Some (OwnBytes body)]\<rparr>) ?k"
  let ?m' = "m(?k := None)"
  have a: "activeRequests ?s = Some ?m'"
    by (simp add: deleteRequest_def registered_def)
  have ch: "chans ?s = chans ms @ [Some (OwnBytes body)]"
    by (simp add: deleteRequest_def registered_def)
  have b: "inj_on ?m' (dom ?m')"
    using inj by (auto simp: inj_on_def dom_def split: if_splits)
  have c: "\<forall>k c. ?m' k = Some c \<longrightarrow> c < length (chans ?s) \<and> chans ?s ! c = None"
  proof (intro allI impI)
    fix k c assume "?m' k = Some c"
    then have "m k = Some c" by (simp split: if_splits)
    with val have "c < length (chans ms)" "chans ms ! c = None" by blast+
    then show "c < length (chans ?s) \<and> chans ?s ! c = None"
      by (simp add: ch nth_append)
  qed
  show ?thesis unfolding pending_ok_def using a b c by blast
qed

lemma registered_fields [simp]:
  "chans (registered ms m) = chans ms @ [None]"
  "reqID (registered ms m) = reqID ms + 1"
  "transport (registered ms m) = transport ms"
  "Server (registered ms m) = Server ms"
  "written (registered ms m) = written ms"
  "activeRequests (registered ms m) = Some (m(reqID ms + 1 \<mapsto> length (chans ms)))"
  by (simp_all add: registered_def)

lemma pending_ok_sendStdioRequest:
  "pending_ok (snd (sendStdioRequest cd w req ms)) = pending_ok ms"
  by (simp add: sendStdioRequest_def Let_def pending_ok_written split: option.splits)

lemma pending_ok_sendWebSocketRequest:
  "pending_ok (snd (sendWebSocketRequest cd w req ms)) = pending_ok ms"
  by (simp add: sendWebSocketRequest_def Let_def pending_ok_written split: option.splits)

lemma sendRequest_returns:
  assumes ok: "pending_ok ms"
  shows "\<exists>r ms'. sendRequest cd w ms method params = Returns (r, ms') \<and> pending_ok ms'"
proof -
  from ok obtain m where m: "activeRequests ms = Some m" by (auto simp: pending_ok_def)
  let ?ms1 = "registered ms m"
  let ?k = "reqID ms + 1" and ?c = "length (chans ms)"
  let ?req = "\<lparr>req_id = ?k, req_method = method, req_params = params\<rparr>"
  have ok1: "pending_ok ?ms1" using ok m by (rule pending_ok_registered)
  note ex = sendRequest_expand [OF m, of cd w "method" "params", unfolded Let_def]
  show ?thesis
  proof (cases "transport ms")
    case StdioTransport
    obtain sendErr ms2 where s: "sendStdioRequest cd w ?req ?ms1 = (sendErr, ms2)"
      by (cases "sendStdioRequest cd w ?req ?ms1")
    have "pending_ok ms2"
      using s ok1 pending_ok_sendStdioRequest [of cd w ?req ?ms1] by simp
    from afterSend_returns [OF this, of cd w ?k ?c sendErr] show ?thesis
      using ex StdioTransport s by simp
  next
    case WebSocketTransport
    obtain sendErr ms2 where s: "sendWebSocketRequest cd w ?req ?ms1 = (sendErr, ms2)"
      by (cases "sendWebSocketRequest cd w ?req ?ms1")
    have "pending_ok ms2"
      using s ok1 pending_ok_sendWebSocketRequest [of cd w ?req ?ms1] by simp
    from afterSend_returns [OF this, of cd w ?k ?c sendErr] show ?thesis
      using ex WebSocketTransport s by simp
  next
    case NoTransport
    then show ?thesis using ex ok1 by simp
  next
    case HTTPTransport
    have empty: "chans ?ms1 ! ?c = None" by (simp add: nth_append)
    from sendHTTPRequest_cases [OF empty, of cd w ?req]
    show ?thesis
    proof (elim disjE exE conjE)
      fix e ms2
      assume s: "sendHTTPRequest cd w ?req ?c ?ms1 = Returns (Some e, ms2)"
        and f: "activeRequests ms2 = activeRequests ?ms1" "chans ms2 = chans ?ms1"
      have "pending_ok ms2" using ok1 f by (simp add: pending_ok_def)
      from pending_ok_deleteRequest [OF this, of ?k] show ?thesis
        using ex HTTPTransport s by (simp add: afterSend_def)
    next
      fix data body
      assume s: "sendHTTPRequest cd w ?req ?c ?ms1 =
          Returns (None, ?ms1\<lparr>written := written ?ms1 @ [data], chans := (chans ?ms1)[?c := Some (OwnBytes body)]\<rparr>)"
      let ?ms2 = "?ms1\<lparr>written := written ?ms1 @ [data], chans := (chans ?ms1)[?c := Some (OwnBytes body)]\<rparr>"
      have bg: "background_reader cd w ?ms2 = Returns ?ms2"
        using HTTPTransport by (simp add: background_reader_def)
      have run: "sendRequest cd w ms method params =
          Returns (awaitResponse (deadline_wins w) ?ms2 ?k ?c)"
        using ex HTTPTransport s bg by (simp add: afterSend_def)
      show ?thesis
      proof (cases "deadline_wins w")
        case True
        have "awaitResponse True ?ms2 ?k ?c =
            (Inl (RequestTimeout (Timeout (Server ms))), deleteRequest ?ms2 ?k)"
          by (simp add: awaitResponse_def)
        moreover have "pending_ok (deleteRequest ?ms2 ?k)"
          using pending_ok_http_delivered [OF ok m] by simp
        ultimately show ?thesis using run True by simp
      next
        case False
        have "awaitResponse False ?ms2 ?k ?c =
            (Inr body, ?ms1\<lparr>written := written ?ms1 @ [data]\<rparr>)"
          by (simp add: awaitResponse_def registered_def)
        moreover have "pending_ok (?ms1\<lparr>written := written ?ms1 @ [data]\<rparr>)"
          using ok1 by (simp add: pending_ok_written)
        ultimately show ?thesis using run False by simp
      qed
    qed
  qed
qed

section \<open>Correlation of responses\<close>

lemma three_pending_reached:
  "obind (registerRequest (snd (Connect ConnectOK (newSession fs_server)))) (\<lambda>(k1, c1, s1).
     obind (registerRequest s1) (\<lambda>(k2, c2, s2). obind (registerRequest s2) (\<lambda>(k3, c3, s3). Returns s3)))
    = Returns three_pending"
  by (simp add: Connect_def connectViaStdio_def newSession_def fs_server_def registerRequest_def
        make_chan_def three_pending_def Let_def numeral_2_eq_2)

lemma one_pending_reached:
  "obind (registerRequest (snd (Connect ConnectOK (newSession fs_server)))) (\<lambda>(k1, c1, s1). Returns s1)
    = Returns one_pending"
  by (simp add: Connect_def connectViaStdio_def newSession_def fs_server_def registerRequest_def
        make_chan_def one_pending_def Let_def)

lemma example_response_ids [simp]:
  "response_id example_codec init_reply = Some 1"
  "response_id example_codec tools_reply = Some 2"
  "response_id example_codec call_reply = Some 3"
  "response_id example_codec stray_reply = Some 9"
  "response_id example_codec second_reply = Some 2"
  "response_id example_codec ''garbage'' = None"
  by (simp_all add: response_id_def example_codec_def init_reply_def tools_reply_def call_reply_def
      stray_reply_def second_reply_def go_int_def)

lemma pending_ok_three: "pending_ok three_pending"
  unfolding pending_ok_def three_pending_def
  by (auto simp: inj_on_def dom_def newSession_def split: if_splits)

lemma handleResponse_keeps:
  assumes "handleResponse cd ms line = Returns ms'"
  shows "Server ms' = Server ms \<and> transport ms' = transport ms \<and> reqID ms' = reqID ms \<and>
         written ms' = written ms \<and> closed ms' = closed ms \<and> scanbuf ms' = scanbuf ms"
  using assms
  by (auto simp: handleResponse_cases chan_send_def deleteRequest_def split: option.splits)

lemma read_loop_keeps:
  assumes prep: "\<And>ms t ms1 line. prep ms t = (ms1, line) \<Longrightarrow> \<exists>buf. ms1 = ms\<lparr>scanbuf := buf\<rparr>"
    and "read_loop cd prep ms lines = Returns ms'"
  shows "Server ms' = Server ms \<and> transport ms' = transport ms \<and> reqID ms' = reqID ms \<and>
         written ms' = written ms \<and> closed ms' = closed ms"
  using assms(2)
proof (induction lines arbitrary: ms)
  case Nil
  then show ?case by simp
next
  case (Cons tok rest)
  obtain ms0 line where p: "prep ms tok = (ms0, line)" by (cases "prep ms tok")
  from prep [OF p] obtain buf where ms0: "ms0 = ms\<lparr>scanbuf := buf\<rparr>" by blast
  from Cons.prems p obtain ms1 where h: "handleResponse cd ms0 line = Returns ms1"
    "read_loop cd prep ms1 rest = Returns ms'"
    by (cases "handleResponse cd ms0 line") auto
  from Cons.IH [OF h(2)] handleResponse_keeps [OF h(1)] show ?case by (simp add: ms0)
qed

lemma stdio_reader_keeps:
  assumes "readStdioResponses cd scan ms lines = Returns ms'"
  shows "Server ms' = Server ms \<and> transport ms' = transport ms \<and> reqID ms' = reqID ms \<and>
         written ms' = written ms \<and> closed ms' = closed ms"
proof (rule read_loop_keeps)
  show "read_loop cd (stdio_prep scan) ms lines = Returns ms'"
    using assms by (simp add: readStdioResponses_loop)
  show "\<exists>buf. ms1 = ms\<lparr>scanbuf := buf\<rparr>" if "stdio_prep scan ms t = (ms1, line)" for ms t ms1 line
    using stdio_prep_ok [OF that] by blast
qed

lemma websocket_reader_keeps:
  assumes "readWebSocketResponses cd ms lines = Returns ms'"
  shows "Server ms' = Server ms \<and> transport ms' = transport ms \<and> reqID ms' = reqID ms \<and>
         written ms' = written ms \<and> closed ms' = closed ms"
proof (rule read_loop_keeps)
  show "read_loop cd websocket_prep ms lines = Returns ms'"
    using assms by (simp add: readWebSocketResponses_loop)
  show "\<exists>buf. ms1 = ms\<lparr>scanbuf := buf\<rparr>" if "websocket_prep ms t = (ms1, line)" for ms t ms1 line
    using websocket_prep_ok [OF that] by blast
qed

text \<open>
  On the WebSocket transport every message is a buffer of its own. On a session whose
  pending calls wait on distinct, empty channels, whatever messages arrive and in
  whatever order, the reader returns, and for every pending call with id \<open>k\<close>: if a
  message with id \<open>k\<close> arrived, the first such message is in that call's channel, the
  entry is removed, and the caller's \<open>select\<close> returns exactly its bytes; if none
  arrived, the call is still pending on an empty channel. An id with no pending entry
  gets none, and a message whose id matches no pending entry leaves the session as it
  is.
\<close>

lemma websocket_responses_reach_their_callers:
  assumes "pending_ok ms"
  shows "\<exists>ms'. readWebSocketResponses cd ms lines = Returns ms' \<and>
           (\<forall>k c. lookupRequest ms k = Some c \<longrightarrow>
              (case find (\<lambda>l. response_id cd l = Some k) lines of
                 Some l \<Rightarrow> lookupRequest ms' k = None \<and> chans ms' ! c = Some (OwnBytes l) \<and>
                   fst (awaitResponse False ms' k c) = Inr l
               | None \<Rightarrow> lookupRequest ms' k = Some c \<and> chans ms' ! c = None)) \<and>
           (\<forall>k. lookupRequest ms k = None \<longrightarrow> lookupRequest ms' k = None) \<and>
           (\<forall>l. (\<forall>k. response_id cd l = Some k \<longrightarrow> lookupRequest ms' k = None) \<longrightarrow>
                handleResponse cd ms' (OwnBytes l) = Returns ms')"
proof -
  from websocket_reader_char [OF assms, of cd lines] obtain ms' where r:
    "readWebSocketResponses cd ms lines = Returns ms'"
    "\<forall>k c. lookupRequest ms k = Some c \<longrightarrow>
              (case find (\<lambda>l. response_id cd l = Some k) lines of
                 Some l \<Rightarrow> lookupRequest ms' k = None \<and> (\<exists>line. chans ms' ! c = Some line \<and> line = OwnBytes l)
               | None \<Rightarrow> lookupRequest ms' k = Some c \<and> chans ms' ! c = None)"
    "\<forall>k. lookupRequest ms k = None \<longrightarrow> lookupRequest ms' k = None"
    by blast
  have a: "\<forall>k c. lookupRequest ms k = Some c \<longrightarrow>
              (case find (\<lambda>l. response_id cd l = Some k) lines of
                 Some l \<Rightarrow> lookupRequest ms' k = None \<and> chans ms' ! c = Some (OwnBytes l) \<and>
                   fst (awaitResponse False ms' k c) = Inr l
               | None \<Rightarrow> lookupRequest ms' k = Some c \<and> chans ms' ! c = None)"
  proof (intro allI impI)
    fix k c assume "lookupRequest ms k = Some c"
    with r(2) have "case find (\<lambda>l. response_id cd l = Some k) lines of
                 Some l \<Rightarrow> lookupRequest ms' k = None \<and> (\<exists>line. chans ms' ! c = Some line \<and> line = OwnBytes l)
               | None \<Rightarrow> lookupRequest ms' k = Some c \<and> chans ms' ! c = None" by blast
    then show "case find (\<lambda>l. response_id cd l = Some k) lines of
                 Some l \<Rightarrow> lookupRequest ms' k = None \<and> chans ms' ! c = Some (OwnBytes l) \<and>
                   fst (awaitResponse False ms' k c) = Inr l
               | None \<Rightarrow> lookupRequest ms' k = Some c \<and> chans ms' ! c = None"
      by (auto simp: awaitResponse_def split: option.splits)
  qed
  have b: "\<forall>l. (\<forall>k. response_id cd l = Some k \<longrightarrow> lookupRequest ms' k = None) \<longrightarrow>
                handleResponse cd ms' (OwnBytes l) = Returns ms'"
    by (auto simp: handleResponse_cases split: option.splits)
  show ?thesis using r(1,3) a b by blast
qed

lemma three_pending_lookup [simp]:
  "lookupRequest three_pending 1 = Some 0"
  "lookupRequest three_pending 2 = Some 1"
  "lookupRequest three_pending 3 = Some 2"
  by (simp_all add: lookupRequest_def three_pending_def)

text \<open>
  On the stdio transport the reader also returns and also files every response under
  its id, but what it puts into a caller's channel is a slice of the scanner's
  buffer, and the next \<open>Scan\<close> may write over the bytes that slice reads.
\<close>

lemma stdio_responses_are_slices:
  assumes "pending_ok ms"
  shows "\<exists>ms'. readStdioResponses cd scan ms lines = Returns ms' \<and>
           (\<forall>k c. lookupRequest ms k = Some c \<longrightarrow>
              (case find (\<lambda>l. response_id cd l = Some k) lines of
                 Some l \<Rightarrow> lookupRequest ms' k = None \<and>
                   (\<exists>off. chans ms' ! c = Some (ScanSlice off (length l)))
               | None \<Rightarrow> lookupRequest ms' k = Some c \<and> chans ms' ! c = None)) \<and>
           (\<forall>k. lookupRequest ms k = None \<longrightarrow> lookupRequest ms' k = None)"
proof -
  from stdio_reader_char [OF assms, of cd scan lines] obtain ms' where r:
    "readStdioResponses cd scan ms lines = Returns ms'"
    "\<forall>k c. lookupRequest ms k = Some c \<longrightarrow>
              (case find (\<lambda>l. response_id cd l = Some k) lines of
                 Some l \<Rightarrow> lookupRequest ms' k = None \<and>
                   (\<exists>line. chans ms' ! c = Some line \<and> (\<exists>off. line = ScanSlice off (length l)))
               | None \<Rightarrow> lookupRequest ms' k = Some c \<and> chans ms' ! c = None)"
    "\<forall>k. lookupRequest ms k = None \<longrightarrow> lookupRequest ms' k = None"
    by blast
  have a: "\<forall>k c. lookupRequest ms k = Some c \<longrightarrow>
              (case find (\<lambda>l. response_id cd l = Some k) lines of
                 Some l \<Rightarrow> lookupRequest ms' k = None \<and>
                   (\<exists>off. chans ms' ! c = Some (ScanSlice off (length l)))
               | None \<Rightarrow> lookupRequest ms' k = Some c \<and> chans ms' ! c = None)"
  proof (intro allI impI)
    fix k c assume "lookupRequest ms k = Some c"
    with r(2) have "case find (\<lambda>l. response_id cd l = Some k) lines of
                 Some l \<Rightarrow> lookupRequest ms' k = None \<and>
                   (\<exists>line. chans ms' ! c = Some line \<and> (\<exists>off. line = ScanSlice off (length l)))
               | None \<Rightarrow> lookupRequest ms' k = Some c \<and> chans ms' ! c = None" by blast
    then show "case find (\<lambda>l. response_id cd l = Some k) lines of
                 Some l \<Rightarrow> lookupRequest ms' k = None \<and>
                   (\<exists>off. chans ms' ! c = Some (ScanSlice off (length l)))
               | None \<Rightarrow> lookupRequest ms' k = Some c \<and> chans ms' ! c = None"
      by (auto split: option.splits)
  qed
  show ?thesis using r(1,3) a by blast
qed

text \<open>
  Claim C1 fails on the stdio transport. Calls 1, 2 and 3 are pending and the peer
  answers call 1 and then call 2, the scanner holding each line at the front of its
  buffer. The reader files both responses under their ids, yet the caller of call 1,
  reading its channel afterwards, gets the bytes of the response that bears id 2: its
  slice now reads the second line. Likewise a call made while call 1 is pending, and
  answered just before call 1 is, returns the response that bears id 1.
\<close>

theorem stdio_payload_overwritten:
  "(case readStdioResponses example_codec front_scanner three_pending [init_reply, second_reply] of
      Returns ms' \<Rightarrow>
        lookupRequest ms' 1 = None \<and> lookupRequest ms' 2 = None \<and>
        chans ms' ! 0 = Some (ScanSlice 0 (length init_reply)) \<and>
        fst (awaitResponse False ms' 1 0) = Inr second_reply
    | _ \<Rightarrow> False) \<and>
   response_id example_codec init_reply = Some 1 \<and>
   response_id example_codec second_reply = Some 2 \<and>
   (case sendRequest example_codec
           (quiet_world\<lparr>inbound := [second_reply, init_reply], scanner := front_scanner\<rparr>)
           one_pending ''tools/list'' (JMap []) of
      Returns (r, ms') \<Rightarrow> reqID ms' = 2 \<and> r = Inr init_reply
    | _ \<Rightarrow> False)"
proof -
  have a: "readStdioResponses example_codec front_scanner three_pending [init_reply, second_reply] =
      Returns (three_pending\<lparr>scanbuf := second_reply,
        chans := [Some (ScanSlice 0 16), Some (ScanSlice 0 16), None],
        activeRequests := Some (([1 \<mapsto> 0, 2 \<mapsto> 1, 3 \<mapsto> 2])(1 := None, 2 := None))\<rparr>)"
    by (simp add: front_scanner_def handleResponse_cases raw_bytes_def lookupRequest_def
        chan_send_def deleteRequest_def three_pending_def newSession_def
        init_reply_def [symmetric] second_reply_def [symmetric])
      (simp add: init_reply_def second_reply_def)
  have b: "sendRequest example_codec
           (quiet_world\<lparr>inbound := [second_reply, init_reply], scanner := front_scanner\<rparr>)
           one_pending ''tools/list'' (JMap []) =
      Returns (Inr init_reply, one_pending\<lparr>reqID := 2, scanbuf := init_reply,
        written := [''{method:tools/list}'' @ [newline]],
        chans := [Some (ScanSlice 0 16), None],
        activeRequests := Some (([1 \<mapsto> 0, 2 \<mapsto> 1])(2 := None, 1 := None))\<rparr>)"
    by (simp add: sendRequest_def registerRequest_def make_chan_def sendStdioRequest_def
        afterSend_def background_reader_def awaitResponse_def quiet_world_def example_codec_def
        front_scanner_def handleResponse_def raw_bytes_def lookupRequest_def
        chan_send_def deleteRequest_def one_pending_def newSession_def Let_def go_int_def
        init_reply_def second_reply_def tools_reply_def call_reply_def stray_reply_def)
  show ?thesis
    unfolding a b
    by (simp add: awaitResponse_def raw_bytes_def lookupRequest_def three_pending_def
        newSession_def one_pending_def)
      (simp add: init_reply_def second_reply_def)
qed

section \<open>Timeouts\<close>

lemma deleteRequest_absent:
  assumes "activeRequests ms \<noteq> None" "lookupRequest ms k = None"
  shows "deleteRequest ms k = ms"
proof -
  from assms obtain m where m: "activeRequests ms = Some m" "m k = None"
    by (auto simp: lookupRequest_def)
  then have "m(k := None) = m" by (intro ext) simp
  with m(1) show ?thesis by (simp add: deleteRequest_def)
qed

lemma lookupRequest_deleteRequest:
  "lookupRequest (deleteRequest ms k) k' = (if k' = k then None else lookupRequest ms k')"
  by (simp add: deleteRequest_def lookupRequest_def split: option.splits)

lemma awaitResponse_timeout:
  assumes "chans ms ! c = None"
  shows "awaitResponse d ms k c = (Inl (RequestTimeout (Timeout (Server ms))), deleteRequest ms k)"
  using assms by (simp add: awaitResponse_def)

lemma raw_bytes_deleteRequest [simp]: "raw_bytes (deleteRequest ms k) line = raw_bytes ms line"
  by (simp add: raw_bytes_def deleteRequest_def split: RawMessage.splits)

lemma late_delivery_noop:
  assumes "response_id cd (raw_bytes ms line) = Some k"
  shows "handleResponse cd (deleteRequest ms k) line = Returns (deleteRequest ms k)"
  using assms by (simp add: handleResponse_cases lookupRequest_deleteRequest)

lemma delivery_then_eviction:
  assumes "pending_ok ms" "lookupRequest ms k = Some c" "response_id cd (raw_bytes ms line) = Some k"
  shows "\<exists>ms1. handleResponse cd ms line = Returns ms1 \<and> lookupRequest ms1 k = None \<and>
           deleteRequest ms1 k = ms1"
proof -
  have h: "handleResponse cd ms line = Returns (deliver ms k c line)"
    using assms by (simp add: handleResponse_match)
  have l: "lookupRequest (deliver ms k c line) k = None" by (simp add: lookup_deliver)
  have a: "activeRequests (deliver ms k c line) \<noteq> None"
    using assms(1) by (auto simp: deliver_def deleteRequest_def pending_ok_def)
  from deleteRequest_absent [OF a l] h l show ?thesis by simp
qed

lemma stream_send_ok:
  assumes "marshal cd req = Some data"
    and "write_result w (if transport ms = StdioTransport then data @ [newline] else data) = None"
  shows "transport ms = StdioTransport \<Longrightarrow>
      sendStdioRequest cd w req ms1 = (None, ms1\<lparr>written := written ms1 @ [data @ [newline]]\<rparr>)"
    and "transport ms \<noteq> StdioTransport \<Longrightarrow>
      sendWebSocketRequest cd w req ms1 = (None, ms1\<lparr>written := written ms1 @ [data]\<rparr>)"
  using assms by (simp_all add: sendStdioRequest_def sendWebSocketRequest_def Let_def)

lemma background_reader_quiet:
  assumes ok: "pending_ok ms" and l: "lookupRequest ms k = Some c"
    and quiet: "\<forall>l \<in> set (inbound w). response_id cd l \<noteq> Some k"
  shows "\<exists>ms'. background_reader cd w ms = Returns ms' \<and> chans ms' ! c = None \<and>
           Server ms' = Server ms"
proof -
  have nf: "find (\<lambda>l. response_id cd l = Some k) (inbound w) = None"
    using quiet by (simp add: find_None_iff)
  show ?thesis
  proof (cases "transport ms")
    case StdioTransport
    from stdio_reader_char [OF ok, of cd "scanner w" "inbound w"] obtain ms3 where r:
      "readStdioResponses cd (scanner w) ms (inbound w) = Returns ms3"
      "\<forall>k c. lookupRequest ms k = Some c \<longrightarrow>
              (case find (\<lambda>l. response_id cd l = Some k) (inbound w) of
                 Some l \<Rightarrow> lookupRequest ms3 k = None \<and>
                   (\<exists>line. chans ms3 ! c = Some line \<and> (\<exists>off. line = ScanSlice off (length l)))
               | None \<Rightarrow> lookupRequest ms3 k = Some c \<and> chans ms3 ! c = None)"
      by blast
    from r(2) l nf have "chans ms3 ! c = None" by fastforce
    with r(1) stdio_reader_keeps [OF r(1)] StdioTransport show ?thesis
      by (simp add: background_reader_def)
  next
    case WebSocketTransport
    from websocket_reader_char [OF ok, of cd "inbound w"] obtain ms3 where r:
      "readWebSocketResponses cd ms (inbound w) = Returns ms3"
      "\<forall>k c. lookupRequest ms k = Some c \<longrightarrow>
              (case find (\<lambda>l. response_id cd l = Some k) (inbound w) of
                 Some l \<Rightarrow> lookupRequest ms3 k = None \<and>
                   (\<exists>line. chans ms3 ! c = Some line \<and> line = OwnBytes l)
               | None \<Rightarrow> lookupRequest ms3 k = Some c \<and> chans ms3 ! c = None)"
      by blast
    from r(2) l nf have "chans ms3 ! c = None" by fastforce
    with r(1) websocket_reader_keeps [OF r(1)] WebSocketTransport show ?thesis
      by (simp add: background_reader_def)
  next
    case HTTPTransport
    with pending_okD(2) [OF ok l] show ?thesis by (simp add: background_reader_def)
  next
    case NoTransport
    with pending_okD(2) [OF ok l] show ?thesis by (simp add: background_reader_def)
  qed
qed

lemma stream_call_times_out:
  assumes ok: "pending_ok ms"
    and tr: "transport ms = StdioTransport \<or> transport ms = WebSocketTransport"
    and mar: "marshal cd \<lparr>req_id = reqID ms + 1, req_method = method, req_params = params\<rparr> = Some data"
    and wr: "write_result w (if transport ms = StdioTransport then data @ [newline] else data) = None"
    and quiet: "\<forall>l \<in> set (inbound w). response_id cd l \<noteq> Some (reqID ms + 1)"
  shows "\<exists>ms'. sendRequest cd w ms method params =
            Returns (Inl (RequestTimeout (Timeout (Server ms))), ms') \<and>
          lookupRequest ms' (reqID ms + 1) = None \<and>
          (\<forall>line. response_id cd (raw_bytes ms' line) = Some (reqID ms + 1) \<longrightarrow>
             handleResponse cd ms' line = Returns ms')"
proof -
  from ok obtain m where m: "activeRequests ms = Some m" by (auto simp: pending_ok_def)
  let ?k = "reqID ms + 1" and ?c = "length (chans ms)"
  let ?fr = "if transport ms = StdioTransport then data @ [newline] else data"
  let ?ms2 = "(registered ms m)\<lparr>written := written ms @ [?fr]\<rparr>"
  have ok2: "pending_ok ?ms2"
    using pending_ok_registered [OF ok m] by (simp add: pending_ok_written)
  have l2: "lookupRequest ?ms2 ?k = Some ?c"
    by (simp add: lookupRequest_def)
  have run: "sendRequest cd w ms method params = afterSend cd w ?ms2 ?k ?c None"
    using tr stream_send_ok [OF mar wr, of "registered ms m"]
    by (auto simp: sendRequest_expand [OF m] Let_def)
  from background_reader_quiet [OF ok2 l2 quiet] obtain ms3 where
    bg: "background_reader cd w ?ms2 = Returns ms3" and e: "chans ms3 ! ?c = None"
    and srv: "Server ms3 = Server ms" by auto
  have "sendRequest cd w ms method params =
      Returns (Inl (RequestTimeout (Timeout (Server ms))), deleteRequest ms3 ?k)"
    using run bg awaitResponse_timeout [OF e, of "deadline_wins w" ?k] srv
    by (simp add: afterSend_def)
  moreover have "lookupRequest (deleteRequest ms3 ?k) ?k = None"
    by (simp add: lookupRequest_deleteRequest)
  moreover have "\<forall>line. response_id cd (raw_bytes (deleteRequest ms3 ?k) line) = Some ?k \<longrightarrow>
      handleResponse cd (deleteRequest ms3 ?k) line = Returns (deleteRequest ms3 ?k)"
    by (simp add: late_delivery_noop)
  ultimately show ?thesis by blast
qed

text \<open>
  On the HTTP transport the deadline is the client's (\<open>http.Client.Timeout\<close>, line 212):
  an exchange that runs out of time is an error of \<open>Do\<close>, which \<open>sendRequest\<close> reports as
  a failed send (line 253), not as its own timeout.
\<close>

lemma http_exchange_fails:
  assumes ok: "pending_ok ms" and tr: "transport ms = HTTPTransport"
    and mar: "marshal cd \<lparr>req_id = reqID ms + 1, req_method = method, req_params = params\<rparr> = Some data"
    and rt: "round_trip w data = Inl e"
  shows "\<exists>ms'. sendRequest cd w ms method params =
            Returns (Inl (SendFailed (RoundTripError e)), ms') \<and>
          lookupRequest ms' (reqID ms + 1) = None \<and>
          (\<forall>line. response_id cd (raw_bytes ms' line) = Some (reqID ms + 1) \<longrightarrow>
             handleResponse cd ms' line = Returns ms')"
proof -
  from ok obtain m where m: "activeRequests ms = Some m" by (auto simp: pending_ok_def)
  let ?k = "reqID ms + 1"
  have "sendRequest cd w ms method params =
      Returns (Inl (SendFailed (RoundTripError e)), deleteRequest (registered ms m) ?k)"
    using tr mar rt
    by (simp add: sendRequest_expand [OF m] Let_def sendHTTPRequest_def afterSend_def)
  moreover have "lookupRequest (deleteRequest (registered ms m) ?k) ?k = None"
    by (simp add: lookupRequest_deleteRequest)
  moreover have "\<forall>line. response_id cd (raw_bytes (deleteRequest (registered ms m) ?k) line) = Some ?k \<longrightarrow>
      handleResponse cd (deleteRequest (registered ms m) ?k) line = Returns (deleteRequest (registered ms m) ?k)"
    by (simp add: late_delivery_noop)
  ultimately show ?thesis by blast
qed

lemma fs_connected_reached: "Connect ConnectOK (newSession fs_server) = (None, fs_connected)"
  by (simp add: Connect_def connectViaStdio_def newSession_def fs_server_def fs_connected_def)

lemma web_connected_reached: "Connect cr (newSession web_server) = (None, web_connected)"
  by (simp add: Connect_def connectViaHTTP_def newSession_def web_server_def web_connected_def
      strings_HasPrefix_def)

lemma pending_ok_fs_connected: "pending_ok fs_connected"
  by (simp add: pending_ok_def fs_connected_def)

lemma pending_ok_web_connected: "pending_ok web_connected"
  by (simp add: pending_ok_def web_connected_def)

text \<open>
  Claim C2, as stated for every call on a session, fails on the HTTP transport: a call
  on the connected session of \<open>web_server\<close> whose exchange gets no response within the
  timeout returns the error of a failed send, not the timeout error. Its entry is
  removed all the same.
\<close>

theorem http_timeout_is_send_failure_counterexample:
  "transport web_connected = HTTPTransport \<and>
   (case sendRequest example_codec stalled_world web_connected ''tools/list'' (JMap []) of
      Returns (r, ms') \<Rightarrow>
        r = Inl (SendFailed (RoundTripError
              ''context deadline exceeded (Client.Timeout exceeded while awaiting headers)'')) \<and>
        r \<noteq> Inl (RequestTimeout (Timeout (Server web_connected))) \<and>
        lookupRequest ms' 1 = None
    | _ \<Rightarrow> False)"
  by (simp add: sendRequest_def registerRequest_def make_chan_def sendHTTPRequest_def
      afterSend_def deleteRequest_def lookupRequest_def stalled_world_def quiet_world_def
      example_codec_def web_connected_def newSession_def Let_def)

text \<open>
  Claim C2, amended. A call on a stream transport whose request was sent and for which
  no payload with its id arrives before the deadline returns the timeout error; a call
  on the HTTP transport whose exchange fails, running out of time included, returns
  that failure as a failed send. In both cases the entry is gone from the pending map
  and a payload with that id arriving later leaves the session as it is. At the
  \<open>select\<close>, an empty channel means the timeout branch, which deletes the entry. Of
  delivery and eviction only the first removes the entry: after an eviction a delivery
  finds nothing, and after a delivery the eviction's \<open>delete\<close> changes nothing.
\<close>

theorem timeout_removes_pending_entry:
  "(pending_ok ms \<and> (transport ms = StdioTransport \<or> transport ms = WebSocketTransport) \<and>
    marshal cd \<lparr>req_id = reqID ms + 1, req_method = meth, req_params = params\<rparr> = Some data \<and>
    write_result w (if transport ms = StdioTransport then data @ [newline] else data) = None \<and>
    (\<forall>l \<in> set (inbound w). response_id cd l \<noteq> Some (reqID ms + 1)) \<longrightarrow>
      (\<exists>ms'. sendRequest cd w ms meth params =
                Returns (Inl (RequestTimeout (Timeout (Server ms))), ms') \<and>
             lookupRequest ms' (reqID ms + 1) = None \<and>
             (\<forall>line. response_id cd (raw_bytes ms' line) = Some (reqID ms + 1) \<longrightarrow>
                handleResponse cd ms' line = Returns ms'))) \<and>
   (pending_ok hs \<and> transport hs = HTTPTransport \<and>
    marshal cd \<lparr>req_id = reqID hs + 1, req_method = meth, req_params = params\<rparr> = Some hdata \<and>
    round_trip hw hdata = Inl e \<longrightarrow>
      (\<exists>hs'. sendRequest cd hw hs meth params =
                Returns (Inl (SendFailed (RoundTripError e)), hs') \<and>
             lookupRequest hs' (reqID hs + 1) = None \<and>
             (\<forall>line. response_id cd (raw_bytes hs' line) = Some (reqID hs + 1) \<longrightarrow>
                handleResponse cd hs' line = Returns hs'))) \<and>
   (chans s ! c = None \<longrightarrow>
      awaitResponse d s k c = (Inl (RequestTimeout (Timeout (Server s))), deleteRequest s k)) \<and>
   lookupRequest (deleteRequest s k) k = None \<and>
   (response_id cd (raw_bytes s line) = Some k \<longrightarrow>
      handleResponse cd (deleteRequest s k) line = Returns (deleteRequest s k)) \<and>
   (pending_ok s \<and> lookupRequest s k = Some c \<and> response_id cd (raw_bytes s line) = Some k \<longrightarrow>
      (\<exists>s1. handleResponse cd s line = Returns s1 \<and> lookupRequest s1 k = None \<and>
            deleteRequest s1 k = s1))"
proof (intro conjI impI)
  assume "pending_ok ms \<and> (transport ms = StdioTransport \<or> transport ms = WebSocketTransport) \<and>
    marshal cd \<lparr>req_id = reqID ms + 1, req_method = meth, req_params = params\<rparr> = Some data \<and>
    write_result w (if transport ms = StdioTransport then data @ [newline] else data) = None \<and>
    (\<forall>l \<in> set (inbound w). response_id cd l \<noteq> Some (reqID ms + 1))"
  then show "\<exists>ms'. sendRequest cd w ms meth params =
                Returns (Inl (RequestTimeout (Timeout (Server ms))), ms') \<and>
             lookupRequest ms' (reqID ms + 1) = None \<and>
             (\<forall>line. response_id cd (raw_bytes ms' line) = Some (reqID ms + 1) \<longrightarrow>
                handleResponse cd ms' line = Returns ms')"
    using stream_call_times_out [of ms cd meth params data w] by blast
next
  assume "pending_ok hs \<and> transport hs = HTTPTransport \<and>
    marshal cd \<lparr>req_id = reqID hs + 1, req_method = meth, req_params = params\<rparr> = Some hdata \<and>
    round_trip hw hdata = Inl e"
  then show "\<exists>hs'. sendRequest cd hw hs meth params =
                Returns (Inl (SendFailed (RoundTripError e)), hs') \<and>
             lookupRequest hs' (reqID hs + 1) = None \<and>
             (\<forall>line. response_id cd (raw_bytes hs' line) = Some (reqID hs + 1) \<longrightarrow>
                handleResponse cd hs' line = Returns hs')"
    using http_exchange_fails [of hs cd meth params hdata hw e] by blast
next
  assume "chans s ! c = None"
  then show "awaitResponse d s k c = (Inl (RequestTimeout (Timeout (Server s))), deleteRequest s k)"
    by (rule awaitResponse_timeout)
next
  show "lookupRequest (deleteRequest s k) k = None"
    by (simp add: lookupRequest_deleteRequest)
next
  assume "response_id cd (raw_bytes s line) = Some k"
  then show "handleResponse cd (deleteRequest s k) line = Returns (deleteRequest s k)"
    by (rule late_delivery_noop)
next
  assume "pending_ok s \<and> lookupRequest s k = Some c \<and> response_id cd (raw_bytes s line) = Some k"
  then show "\<exists>s1. handleResponse cd s line = Returns s1 \<and> lookupRequest s1 k = None \<and>
            deleteRequest s1 k = s1"
    using delivery_then_eviction [of s k c cd line] by blast
qed

theorem timeout_removes_pending_entry_witness:
  "pending_ok fs_connected \<and> transport fs_connected = StdioTransport \<and>
   (\<exists>ms'. sendRequest example_codec (quiet_world\<lparr>inbound := [stray_reply, ''garbage'']\<rparr>)
             fs_connected ''tools/list'' (JMap []) = Returns (Inl (RequestTimeout 5), ms') \<and>
          lookupRequest ms' 1 = None \<and>
          handleResponse example_codec ms' (OwnBytes init_reply) = Returns ms') \<and>
   pending_ok web_connected \<and> transport web_connected = HTTPTransport \<and>
   (\<exists>hs'. sendRequest example_codec stalled_world web_connected ''tools/list'' (JMap [])
            = Returns (Inl (SendFailed (RoundTripError
                ''context deadline exceeded (Client.Timeout exceeded while awaiting headers)'')), hs') \<and>
          lookupRequest hs' 1 = None \<and>
          handleResponse example_codec hs' (OwnBytes init_reply) = Returns hs') \<and>
   chans (three_pending\<lparr>scanbuf := tools_reply\<rparr>) ! 1 = None \<and>
   awaitResponse True (three_pending\<lparr>scanbuf := tools_reply\<rparr>) 2 1
     = (Inl (RequestTimeout 5), deleteRequest (three_pending\<lparr>scanbuf := tools_reply\<rparr>) 2) \<and>
   raw_bytes (three_pending\<lparr>scanbuf := tools_reply\<rparr>) (ScanSlice 0 28) = tools_reply \<and>
   handleResponse example_codec (deleteRequest (three_pending\<lparr>scanbuf := tools_reply\<rparr>) 2) (ScanSlice 0 28)
     = Returns (deleteRequest (three_pending\<lparr>scanbuf := tools_reply\<rparr>) 2) \<and>
   pending_ok (three_pending\<lparr>scanbuf := tools_reply\<rparr>) \<and>
   lookupRequest (three_pending\<lparr>scanbuf := tools_reply\<rparr>) 2 = Some 1 \<and>
   (\<exists>s1. handleResponse example_codec (three_pending\<lparr>scanbuf := tools_reply\<rparr>) (ScanSlice 0 28)
           = Returns s1 \<and>
         lookupRequest s1 2 = None \<and> deleteRequest s1 2 = s1)"
proof -
  note t = timeout_removes_pending_entry [where ms = fs_connected and cd = example_codec
      and meth = "''tools/list''" and params = "JMap []" and data = "''{method:tools/list}''"
      and w = "quiet_world\<lparr>inbound := [stray_reply, ''garbage'']\<rparr>"
      and hs = web_connected and hdata = "''{method:tools/list}''" and hw = stalled_world
      and e = "''context deadline exceeded (Client.Timeout exceeded while awaiting headers)''"
      and s = "three_pending\<lparr>scanbuf := tools_reply\<rparr>" and c = 1 and d = True and k = 2
      and line = "ScanSlice 0 28"]
  have a: "reqID fs_connected + 1 = 1" "Timeout (Server fs_connected) = 5"
    "transport fs_connected = StdioTransport"
    by (simp_all add: fs_connected_def newSession_def fs_server_def)
  have a': "reqID web_connected + 1 = 1" "transport web_connected = HTTPTransport"
    by (simp_all add: web_connected_def newSession_def)
  have b: "marshal example_codec \<lparr>req_id = 1, req_method = ''tools/list'', req_params = JMap []\<rparr>
      = Some ''{method:tools/list}''"
    by (simp add: example_codec_def)
  have c: "write_result (quiet_world\<lparr>inbound := [stray_reply, ''garbage'']\<rparr>) x = None" for x
    by (simp add: quiet_world_def)
  have c': "round_trip stalled_world x
      = Inl ''context deadline exceeded (Client.Timeout exceeded while awaiting headers)''" for x
    by (simp add: stalled_world_def)
  have d: "chans (three_pending\<lparr>scanbuf := tools_reply\<rparr>) ! 1 = None"
    "Timeout (Server (three_pending\<lparr>scanbuf := tools_reply\<rparr>)) = 5"
    by (simp_all add: three_pending_def newSession_def fs_server_def)
  have e: "raw_bytes (three_pending\<lparr>scanbuf := tools_reply\<rparr>) (ScanSlice 0 28) = tools_reply"
    by (simp add: raw_bytes_def tools_reply_def)
  have f: "pending_ok (three_pending\<lparr>scanbuf := tools_reply\<rparr>)"
    "lookupRequest (three_pending\<lparr>scanbuf := tools_reply\<rparr>) 2 = Some 1"
    using pending_ok_three by (simp_all add: pending_ok_scanbuf lookupRequest_scanbuf)
  from t show ?thesis
    using a a' b c c' d e f pending_ok_fs_connected pending_ok_web_connected by auto
qed

section \<open>Failed sends and the HTTP transport\<close>

lemma awaitResponse_not_SendFailed: "fst (awaitResponse d ms k c) \<noteq> Inl (SendFailed e)"
  by (simp add: awaitResponse_def split: option.splits)

lemma afterSend_None_not_SendFailed:
  "afterSend cd w ms k c None \<noteq> Returns (Inl (SendFailed e), ms')"
proof
  assume a: "afterSend cd w ms k c None = Returns (Inl (SendFailed e), ms')"
  then obtain ms1 where "background_reader cd w ms = Returns ms1"
    "awaitResponse (deadline_wins w) ms1 k c = (Inl (SendFailed e), ms')"
    by (cases "background_reader cd w ms") (auto simp: afterSend_def)
  with awaitResponse_not_SendFailed [of "deadline_wins w" ms1 k c e] show False by simp
qed

lemma afterSend_Some:
  "afterSend cd w ms k c (Some e) = Returns (Inl (SendFailed e), deleteRequest ms k)"
  by (simp add: afterSend_def)

lemma afterSend_SendFailed:
  assumes "afterSend cd w ms k c sendErr = Returns (Inl (SendFailed e), ms')"
  shows "sendErr = Some e \<and> ms' = deleteRequest ms k"
  using assms afterSend_None_not_SendFailed [of cd w ms k c e ms']
  by (cases sendErr) (simp_all add: afterSend_Some)

lemma send_world_independent:
  "sendStdioRequest cd (w\<lparr>inbound := fs, deadline_wins := d\<rparr>) req ms = sendStdioRequest cd w req ms"
  "sendWebSocketRequest cd (w\<lparr>inbound := fs, deadline_wins := d\<rparr>) req ms = sendWebSocketRequest cd w req ms"
  "sendHTTPRequest cd (w\<lparr>inbound := fs, deadline_wins := d\<rparr>) req c ms = sendHTTPRequest cd w req c ms"
  by (simp_all add: sendStdioRequest_def sendWebSocketRequest_def sendHTTPRequest_def Let_def
      split: option.splits sum.splits)

lemma deleteRequest_registered:
  assumes "m (reqID ms + 1) = None"
  shows "activeRequests (deleteRequest ((registered ms m)\<lparr>written := x\<rparr>) (reqID ms + 1)) = Some m"
    and "activeRequests (deleteRequest (registered ms m) (reqID ms + 1)) = Some m"
  using map_upd_del [of m "reqID ms + 1", OF assms] by (simp_all add: deleteRequest_def)

lemma failed_send:
  assumes m: "activeRequests ms = Some m" and fresh: "m (reqID ms + 1) = None"
    and res: "sendRequest cd w ms method params = Returns (Inl (SendFailed e), ms')"
  shows "activeRequests ms' = Some m \<and>
         sendRequest cd (w\<lparr>inbound := fs, deadline_wins := d\<rparr>) ms method params
           = Returns (Inl (SendFailed e), ms')"
proof -
  let ?ms1 = "registered ms m"
  let ?k = "reqID ms + 1" and ?c = "length (chans ms)"
  let ?req = "\<lparr>req_id = ?k, req_method = method, req_params = params\<rparr>"
  let ?w' = "w\<lparr>inbound := fs, deadline_wins := d\<rparr>"
  note ex = sendRequest_expand [OF m, of cd w "method" "params", unfolded Let_def]
  note ex' = sendRequest_expand [OF m, of cd ?w' "method" "params", unfolded Let_def]
  show ?thesis
  proof (cases "transport ms")
    case StdioTransport
    obtain sendErr ms2 where s: "sendStdioRequest cd w ?req ?ms1 = (sendErr, ms2)"
      by (cases "sendStdioRequest cd w ?req ?ms1")
    with res ex StdioTransport have "afterSend cd w ms2 ?k ?c sendErr = Returns (Inl (SendFailed e), ms')"
      by simp
    from afterSend_SendFailed [OF this] have e: "sendErr = Some e" "ms' = deleteRequest ms2 ?k" by auto
    with s have "ms2 = ?ms1" by (auto dest: sendStdioRequest_cases(1))
    with e s show ?thesis
      using ex' StdioTransport deleteRequest_registered(2) [where m = m and ms = ms, OF fresh]
      by (simp add: send_world_independent afterSend_Some)
  next
    case WebSocketTransport
    obtain sendErr ms2 where s: "sendWebSocketRequest cd w ?req ?ms1 = (sendErr, ms2)"
      by (cases "sendWebSocketRequest cd w ?req ?ms1")
    with res ex WebSocketTransport have "afterSend cd w ms2 ?k ?c sendErr = Returns (Inl (SendFailed e), ms')"
      by simp
    from afterSend_SendFailed [OF this] have e: "sendErr = Some e" "ms' = deleteRequest ms2 ?k" by auto
    with s have "ms2 = ?ms1" by (auto dest: sendWebSocketRequest_cases(1))
    with e s show ?thesis
      using ex' WebSocketTransport deleteRequest_registered(2) [where m = m and ms = ms, OF fresh]
      by (simp add: send_world_independent afterSend_Some)
  next
    case NoTransport
    with res ex show ?thesis by simp
  next
    case HTTPTransport
    from res ex HTTPTransport obtain sendErr ms2 where
      s: "sendHTTPRequest cd w ?req ?c ?ms1 = Returns (sendErr, ms2)"
      and a: "afterSend cd w ms2 ?k ?c sendErr = Returns (Inl (SendFailed e), ms')"
      by (cases "sendHTTPRequest cd w ?req ?c ?ms1") auto
    from afterSend_SendFailed [OF a] have e: "sendErr = Some e" "ms' = deleteRequest ms2 ?k" by auto
    have empty: "chans ?ms1 ! ?c = None" by (simp add: nth_append)
    from sendHTTPRequest_cases [OF empty, of cd w ?req] s e(1)
    have "activeRequests ms2 = activeRequests ?ms1" by auto
    then have "activeRequests ms' = Some m"
      using e(2) map_upd_del [of m "reqID ms + 1", OF fresh] by (simp add: deleteRequest_def)
    moreover have "sendRequest cd ?w' ms method params = Returns (Inl (SendFailed e), ms')"
      using ex' HTTPTransport s e by (simp add: send_world_independent afterSend_Some)
    ultimately show ?thesis by simp
  qed
qed

lemma http_call:
  assumes tr: "transport ms = HTTPTransport" and m: "activeRequests ms = Some m"
    and mar: "marshal cd \<lparr>req_id = reqID ms + 1, req_method = method, req_params = params\<rparr> = Some data"
    and rt: "round_trip w data = Inr body"
    and dec: "unmarshal_map cd body = Some response"
    and dl: "\<not> deadline_wins w"
  shows "sendRequest cd w ms method params =
           Returns (Inr body, (registered ms m)\<lparr>written := written ms @ [data]\<rparr>)"
proof -
  have "((chans ms @ [None])[length (chans ms) := Some (OwnBytes body)])[length (chans ms) := None] = chans ms @ [None]"
    by simp
  then show ?thesis
    using assms
    by (simp add: sendRequest_expand [OF m] Let_def sendHTTPRequest_def chan_send_def nth_append
        afterSend_def background_reader_def awaitResponse_def registered_def)
qed


subsection \<open>Ids come from the counter\<close>

lemma ids_issued_fresh: "ids_issued ms \<Longrightarrow> lookupRequest ms (reqID ms + 1) = None"
  by (cases "lookupRequest ms (reqID ms + 1)") (auto simp: ids_issued_def)

lemma ids_issued_shrink:
  assumes "ids_issued ms" "reqID ms' = reqID ms"
    and "\<And>k c. lookupRequest ms' k = Some c \<Longrightarrow> lookupRequest ms k = Some c"
  shows "ids_issued ms'"
  using assms unfolding ids_issued_def by metis

lemma reqID_deleteRequest: "reqID (deleteRequest ms k) = reqID ms"
  by (simp add: deleteRequest_def)

lemma lookupRequest_chans: "lookupRequest (ms\<lparr>chans := x\<rparr>) k = lookupRequest ms k"
  by (simp add: lookupRequest_def)

lemma handleResponse_shrinks:
  assumes "handleResponse cd ms line = Returns ms'" "lookupRequest ms' k = Some c"
  shows "lookupRequest ms k = Some c"
  using assms
  by (auto simp: handleResponse_cases chan_send_def lookupRequest_deleteRequest lookupRequest_chans
      split: option.splits if_splits)

lemma read_loop_shrinks:
  assumes prep: "\<And>ms t ms1 line. prep ms t = (ms1, line) \<Longrightarrow> \<exists>buf. ms1 = ms\<lparr>scanbuf := buf\<rparr>"
    and "read_loop cd prep ms lines = Returns ms'" "lookupRequest ms' k = Some c"
  shows "lookupRequest ms k = Some c"
  using assms(2,3)
proof (induction lines arbitrary: ms)
  case Nil
  then show ?case by simp
next
  case (Cons tok rest)
  obtain ms0 line where p: "prep ms tok = (ms0, line)" by (cases "prep ms tok")
  from prep [OF p] obtain buf where ms0: "ms0 = ms\<lparr>scanbuf := buf\<rparr>" by blast
  from Cons.prems(1) p obtain ms1 where h: "handleResponse cd ms0 line = Returns ms1"
    "read_loop cd prep ms1 rest = Returns ms'"
    by (cases "handleResponse cd ms0 line") auto
  from Cons.IH [OF h(2) Cons.prems(2)] handleResponse_shrinks [OF h(1)]
  have "lookupRequest ms0 k = Some c" by blast
  then show ?case by (simp add: ms0 lookupRequest_scanbuf)
qed

lemma stdio_reader_shrinks:
  assumes "readStdioResponses cd scan ms lines = Returns ms'" "lookupRequest ms' k = Some c"
  shows "lookupRequest ms k = Some c"
proof (rule read_loop_shrinks)
  show "read_loop cd (stdio_prep scan) ms lines = Returns ms'"
    using assms(1) by (simp add: readStdioResponses_loop)
  show "\<exists>buf. ms1 = s\<lparr>scanbuf := buf\<rparr>" if "stdio_prep scan s t = (ms1, line)" for s t ms1 line
    using stdio_prep_ok [OF that] by blast
  show "lookupRequest ms' k = Some c" by (rule assms(2))
qed

lemma websocket_reader_shrinks:
  assumes "readWebSocketResponses cd ms lines = Returns ms'" "lookupRequest ms' k = Some c"
  shows "lookupRequest ms k = Some c"
proof (rule read_loop_shrinks)
  show "read_loop cd websocket_prep ms lines = Returns ms'"
    using assms(1) by (simp add: readWebSocketResponses_loop)
  show "\<exists>buf. ms1 = s\<lparr>scanbuf := buf\<rparr>" if "websocket_prep s t = (ms1, line)" for s t ms1 line
    using websocket_prep_ok [OF that] by blast
  show "lookupRequest ms' k = Some c" by (rule assms(2))
qed

lemma background_reader_shrinks:
  assumes "background_reader cd w ms = Returns ms'"
  shows "reqID ms' = reqID ms \<and> (\<forall>k c. lookupRequest ms' k = Some c \<longrightarrow> lookupRequest ms k = Some c)"
proof (cases "transport ms")
  case StdioTransport
  with assms have r: "readStdioResponses cd (scanner w) ms (inbound w) = Returns ms'"
    by (simp add: background_reader_def)
  from stdio_reader_keeps [OF r] stdio_reader_shrinks [OF r] show ?thesis by blast
next
  case WebSocketTransport
  with assms have r: "readWebSocketResponses cd ms (inbound w) = Returns ms'"
    by (simp add: background_reader_def)
  from websocket_reader_keeps [OF r] websocket_reader_shrinks [OF r] show ?thesis by blast
next
  case HTTPTransport
  with assms have "ms' = ms" by (simp add: background_reader_def)
  then show ?thesis by simp
next
  case NoTransport
  with assms have "ms' = ms" by (simp add: background_reader_def)
  then show ?thesis by simp
qed

lemma awaitResponse_shrinks:
  "reqID (snd (awaitResponse d ms k c)) = reqID ms \<and>
   (\<forall>k' c'. lookupRequest (snd (awaitResponse d ms k c)) k' = Some c' \<longrightarrow> lookupRequest ms k' = Some c')"
  by (auto simp: awaitResponse_def lookupRequest_deleteRequest lookupRequest_chans
      reqID_deleteRequest split: option.splits if_splits)

lemma afterSend_shrinks:
  assumes "afterSend cd w ms k c sendErr = Returns (r, ms')"
  shows "reqID ms' = reqID ms \<and> (\<forall>k' c'. lookupRequest ms' k' = Some c' \<longrightarrow> lookupRequest ms k' = Some c')"
proof (cases sendErr)
  case (Some e)
  with assms have "ms' = deleteRequest ms k" by (simp add: afterSend_def)
  then show ?thesis
    by (auto simp: lookupRequest_deleteRequest reqID_deleteRequest split: if_splits)
next
  case None
  with assms obtain ms1 where b: "background_reader cd w ms = Returns ms1"
    and a: "awaitResponse (deadline_wins w) ms1 k c = (r, ms')"
    by (cases "background_reader cd w ms") (auto simp: afterSend_def)
  from awaitResponse_shrinks [of "deadline_wins w" ms1 k c] a
  have "reqID ms' = reqID ms1"
    "\<forall>k' c'. lookupRequest ms' k' = Some c' \<longrightarrow> lookupRequest ms1 k' = Some c'" by simp_all
  with background_reader_shrinks [OF b] show ?thesis by simp
qed

lemma ids_issued_registered:
  assumes "ids_issued ms" "activeRequests ms = Some m"
  shows "ids_issued (registered ms m)"
  using assms by (auto simp: ids_issued_def lookupRequest_def split: if_splits)

lemma send_keeps_ids:
  "ids_issued (snd (sendStdioRequest cd w req ms)) = ids_issued ms"
  "ids_issued (snd (sendWebSocketRequest cd w req ms)) = ids_issued ms"
  by (simp_all add: sendStdioRequest_def sendWebSocketRequest_def Let_def ids_issued_def
      lookupRequest_def split: option.splits)

lemma sendHTTPRequest_keeps_ids:
  assumes "sendHTTPRequest cd w req c ms = Returns (sendErr, ms')"
  shows "ids_issued ms' = ids_issued ms"
  using assms
  by (auto simp: sendHTTPRequest_def Let_def chan_send_def ids_issued_def lookupRequest_def
      split: option.splits sum.splits)

lemma sendRequest_keeps_ids:
  assumes i: "ids_issued ms" and r: "sendRequest cd w ms method params = Returns (res, ms')"
  shows "ids_issued ms' \<and> reqID ms' = reqID ms + 1"
proof (cases "activeRequests ms")
  case None
  with r show ?thesis by (simp add: sendRequest_def registerRequest_nil)
next
  case (Some m)
  let ?ms1 = "registered ms m"
  let ?k = "reqID ms + 1" and ?c = "length (chans ms)"
  let ?req = "\<lparr>req_id = ?k, req_method = method, req_params = params\<rparr>"
  have i1: "ids_issued ?ms1" using i Some by (rule ids_issued_registered)
  note ex = sendRequest_expand [OF Some, of cd w "method" "params", unfolded Let_def]
  have fin: "ids_issued ms' \<and> reqID ms' = reqID ms + 1"
    if a: "afterSend cd w ms2 ?k ?c sendErr = Returns (res, ms')"
      and b: "ids_issued ms2" "reqID ms2 = reqID ms + 1" for ms2 sendErr
  proof -
    from afterSend_shrinks [OF a] have s: "reqID ms' = reqID ms2"
      "\<And>k' c'. lookupRequest ms' k' = Some c' \<Longrightarrow> lookupRequest ms2 k' = Some c'"
      by blast+
    from ids_issued_shrink [OF b(1) s(1) s(2)] s(1) b(2) show ?thesis by simp
  qed
  show ?thesis
  proof (cases "transport ms")
    case StdioTransport
    obtain sendErr ms2 where s: "sendStdioRequest cd w ?req ?ms1 = (sendErr, ms2)"
      by (cases "sendStdioRequest cd w ?req ?ms1")
    have "ids_issued ms2" "reqID ms2 = reqID ms + 1"
      using s i1 send_keeps_ids(1) [of cd w ?req ?ms1]
      by (auto simp: sendStdioRequest_def Let_def split: option.splits)
    with fin [of ms2 sendErr] r ex StdioTransport s show ?thesis by simp
  next
    case WebSocketTransport
    obtain sendErr ms2 where s: "sendWebSocketRequest cd w ?req ?ms1 = (sendErr, ms2)"
      by (cases "sendWebSocketRequest cd w ?req ?ms1")
    have "ids_issued ms2" "reqID ms2 = reqID ms + 1"
      using s i1 send_keeps_ids(2) [of cd w ?req ?ms1]
      by (auto simp: sendWebSocketRequest_def Let_def split: option.splits)
    with fin [of ms2 sendErr] r ex WebSocketTransport s show ?thesis by simp
  next
    case NoTransport
    with r ex i1 show ?thesis by auto
  next
    case HTTPTransport
    from r ex HTTPTransport obtain sendErr ms2 where
      s: "sendHTTPRequest cd w ?req ?c ?ms1 = Returns (sendErr, ms2)"
      and a: "afterSend cd w ms2 ?k ?c sendErr = Returns (res, ms')"
      by (cases "sendHTTPRequest cd w ?req ?c ?ms1") auto
    have "ids_issued ms2" using sendHTTPRequest_keeps_ids [OF s] i1 by simp
    moreover have "reqID ms2 = reqID ms + 1"
      using s by (auto simp: sendHTTPRequest_def Let_def chan_send_def split: option.splits sum.splits)
    ultimately show ?thesis using fin [OF a] by simp
  qed
qed

lemma Connect_ok_empty:
  assumes "Connect cr ms = (None, ms1)"
  shows "activeRequests ms1 = Some Map.empty"
  using assms
  by (auto simp: Connect_def connectViaStdio_def connectViaWebSocket_def connectViaHTTP_def
      split: if_splits connect_result.splits)

lemma Connect_ids_issued:
  assumes "Connect cr ms = (None, ms1)"
  shows "ids_issued ms1 \<and> pending_ok ms1"
  using Connect_ok_empty [OF assms] by (simp add: ids_issued_def lookupRequest_def pending_ok_def)



text \<open>
  Claim C9. On a session whose pending ids have all been issued by its counter (as
  on every session reached from \<open>Connect\<close>), when the send function of the session's
  transport returns an error, \<open>sendRequest\<close> returns that error wrapped as a send
  failure, the pending map afterwards is the map before the call, and the result does
  not depend on what arrives later or on the deadline.
\<close>

theorem failed_send_leaves_pending_map:
  assumes "activeRequests ms = Some m" and "ids_issued ms"
    and "req = \<lparr>req_id = reqID ms + 1, req_method = meth, req_params = params\<rparr>"
    and "(transport ms = StdioTransport \<and>
            fst (sendStdioRequest cd w req (registered ms m)) = Some e) \<or>
         (transport ms = WebSocketTransport \<and>
            fst (sendWebSocketRequest cd w req (registered ms m)) = Some e) \<or>
         (transport ms = HTTPTransport \<and>
            (\<exists>ms2. sendHTTPRequest cd w req (length (chans ms)) (registered ms m)
                     = Returns (Some e, ms2)))"
  shows "\<exists>ms'. sendRequest cd w ms meth params = Returns (Inl (SendFailed e), ms') \<and>
           activeRequests ms' = Some m \<and>
           (\<forall>fs d. sendRequest cd (w\<lparr>inbound := fs, deadline_wins := d\<rparr>) ms meth params
                      = Returns (Inl (SendFailed e), ms'))"
proof -
  have "\<exists>ms'. sendRequest cd w ms meth params = Returns (Inl (SendFailed e), ms')"
    using assms(3,4)
    by (auto simp: sendRequest_expand [OF assms(1)] Let_def afterSend_Some split: prod.splits)
  then obtain ms' where r: "sendRequest cd w ms meth params = Returns (Inl (SendFailed e), ms')"
    by blast
  have "m (reqID ms + 1) = None"
    using ids_issued_fresh [OF assms(2)] assms(1) by (simp add: lookupRequest_def)
  from failed_send [OF assms(1) this r] r show ?thesis by blast
qed

theorem failed_send_leaves_pending_map_witness:
  "activeRequests fs_connected = Some Map.empty \<and> ids_issued fs_connected \<and>
   fst (sendStdioRequest example_codec (quiet_world\<lparr>write_result := (\<lambda>data. Some ''broken pipe'')\<rparr>)
         \<lparr>req_id = 1, req_method = ''tools/list'', req_params = JMap []\<rparr>
         (registered fs_connected Map.empty)) = Some (WriteError ''broken pipe'') \<and>
   (\<exists>ms'. sendRequest example_codec (quiet_world\<lparr>write_result := (\<lambda>data. Some ''broken pipe'')\<rparr>)
            fs_connected ''tools/list'' (JMap [])
          = Returns (Inl (SendFailed (WriteError ''broken pipe'')), ms') \<and>
         activeRequests ms' = Some Map.empty)"
proof -
  let ?w = "quiet_world\<lparr>write_result := (\<lambda>data. Some ''broken pipe'')\<rparr>"
  let ?req = "\<lparr>req_id = 1, req_method = ''tools/list'', req_params = JMap []\<rparr>"
  have a: "activeRequests fs_connected = Some Map.empty" "reqID fs_connected + 1 = 1"
    "transport fs_connected = StdioTransport"
    by (simp_all add: fs_connected_def newSession_def)
  have b: "fst (sendStdioRequest example_codec ?w ?req (registered fs_connected Map.empty))
      = Some (WriteError ''broken pipe'')"
    by (simp add: sendStdioRequest_def example_codec_def quiet_world_def)
  have c: "ids_issued fs_connected"
    by (simp add: ids_issued_def lookupRequest_def fs_connected_def)
  from failed_send_leaves_pending_map [where ms = fs_connected and m = Map.empty and req = ?req
      and meth = "''tools/list''" and params = "JMap []" and cd = example_codec and w = ?w
      and e = "WriteError ''broken pipe''"]
  show ?thesis using a b c by auto
qed

text \<open>
  Claim C5 fails on the HTTP transport. A call whose exchange succeeds returns the
  reply to its caller, and its entry (here id 1 on channel 0) is still in the pending
  map afterwards: \<open>sendHTTPRequest\<close> fills the channel itself and nothing deletes the
  entry, where the readers of the other transports delete it on delivery. A second
  call leaves it there as well, next to its own.
\<close>

theorem http_entry_stays_pending:
  "\<exists>ms' ms''.
     sendRequest example_codec (quiet_world\<lparr>round_trip := (\<lambda>data. Inr init_reply)\<rparr>)
         web_connected ''initialize'' (JMap [(''capabilities'', JMap [])])
       = Returns (Inr init_reply, ms') \<and>
     lookupRequest ms' 1 = Some 0 \<and> chans ms' ! 0 = None \<and>
     sendRequest example_codec (quiet_world\<lparr>round_trip := (\<lambda>data. Inr tools_reply)\<rparr>)
         ms' ''tools/list'' (JMap [])
       = Returns (Inr tools_reply, ms'') \<and>
     lookupRequest ms'' 1 = Some 0 \<and> lookupRequest ms'' 2 = Some 1"
proof -
  let ?w = "quiet_world\<lparr>round_trip := (\<lambda>data. Inr init_reply)\<rparr>"
  let ?w2 = "quiet_world\<lparr>round_trip := (\<lambda>data. Inr tools_reply)\<rparr>"
  let ?ms' = "(registered web_connected Map.empty)\<lparr>written := written web_connected @ [''{method:initialize}'']\<rparr>"
  let ?ms'' = "(registered ?ms' [1 \<mapsto> 0])\<lparr>written := written ?ms' @ [''{method:tools/list}'']\<rparr>"
  have a: "transport web_connected = HTTPTransport" "activeRequests web_connected = Some Map.empty"
    "reqID web_connected + 1 = 1" "chans web_connected = []"
    by (simp_all add: web_connected_def newSession_def)
  have b: "marshal example_codec
      \<lparr>req_id = reqID web_connected + 1, req_method = ''initialize'',
        req_params = JMap [(''capabilities'', JMap [])]\<rparr> = Some ''{method:initialize}''"
    by (simp add: example_codec_def)
  have c: "round_trip ?w ''{method:initialize}'' = Inr init_reply" "\<not> deadline_wins ?w"
    "round_trip ?w2 ''{method:tools/list}'' = Inr tools_reply" "\<not> deadline_wins ?w2"
    by (simp_all add: quiet_world_def)
  have d: "unmarshal_map example_codec init_reply = Some [''id'' \<mapsto> JFloat 1, ''result'' \<mapsto> JMap []]"
    by (simp add: example_codec_def)
  have d2: "unmarshal_map example_codec tools_reply
      = Some [''id'' \<mapsto> JFloat 2,
              ''result'' \<mapsto> JMap [(''tools'', JArr [JMap [(''name'', JStr ''read'')]])]]"
    by (simp add: example_codec_def tools_reply_def init_reply_def)
  have first: "sendRequest example_codec ?w web_connected ''initialize''
      (JMap [(''capabilities'', JMap [])]) = Returns (Inr init_reply, ?ms')"
    by (rule http_call [OF a(1,2) b c(1) d c(2)])
  have a2: "transport ?ms' = HTTPTransport" "activeRequests ?ms' = Some [1 \<mapsto> 0]"
    "reqID ?ms' + 1 = 2"
    by (simp_all add: a)
  have b2: "marshal example_codec
      \<lparr>req_id = reqID ?ms' + 1, req_method = ''tools/list'', req_params = JMap []\<rparr>
      = Some ''{method:tools/list}''"
    by (simp add: example_codec_def)
  have second: "sendRequest example_codec ?w2 ?ms' ''tools/list'' (JMap []) = Returns (Inr tools_reply, ?ms'')"
    by (rule http_call [OF a2(1,2) b2 c(3) d2 c(4)])
  have l: "lookupRequest ?ms' 1 = Some 0" "chans ?ms' ! 0 = None"
    "lookupRequest ?ms'' 1 = Some 0" "lookupRequest ?ms'' 2 = Some 1"
    by (simp_all add: lookupRequest_def a)
  from first second l show ?thesis by blast
qed

section \<open>Choice of transport\<close>

text \<open>
  Claim C7 as stated fails: a descriptor with both a command and a URL is no
  configuration error for \<open>Connect\<close>; the command wins and the session is connected
  over stdio.
\<close>

theorem connect_both_counterexample:
  "Command both_server \<noteq> [] \<and> URL both_server \<noteq> [] \<and>
   Connect ConnectOK (newSession both_server)
     = (None, (newSession both_server)\<lparr>transport := StdioTransport, stdinCmd := True,
                 activeRequests := Some Map.empty\<rparr>)"
  by (simp add: both_server_def Connect_def connectViaStdio_def newSession_def)

text \<open>
  Claim C7, amended. \<open>Connect\<close> fails with the configuration error exactly when the
  descriptor has neither a command nor a URL, and then leaves the session as it is.
  A descriptor with a command selects the stdio transport, whether or not it also has
  a URL; without a command, a URL starting with \<open>ws://\<close> or \<open>wss://\<close> selects WebSocket and
  any other URL selects HTTP.
\<close>

theorem connect_selects_transport:
  "((\<exists>n. fst (Connect cr ms) = Some (NeitherCommandNorURL n))
      \<longleftrightarrow> Command (Server ms) = [] \<and> URL (Server ms) = []) \<and>
   (Command (Server ms) = [] \<and> URL (Server ms) = [] \<longrightarrow>
      Connect cr ms = (Some (NeitherCommandNorURL (Name (Server ms))), ms)) \<and>
   (Command (Server ms) \<noteq> [] \<longrightarrow> transport (snd (Connect cr ms)) = StdioTransport) \<and>
   (Command (Server ms) = [] \<and> URL (Server ms) \<noteq> [] \<longrightarrow>
      transport (snd (Connect cr ms)) =
        (if strings_HasPrefix (URL (Server ms)) ''ws://'' \<or> strings_HasPrefix (URL (Server ms)) ''wss://''
         then WebSocketTransport else HTTPTransport))"
  by (auto simp: Connect_def connectViaStdio_def connectViaWebSocket_def connectViaHTTP_def
      split: connect_result.splits)

theorem connect_selects_transport_witness:
  "Command (Server (newSession both_server)) \<noteq> [] \<and>
   transport (snd (Connect ConnectOK (newSession both_server))) = StdioTransport \<and>
   Command (Server (newSession sock_server)) = [] \<and> URL (Server (newSession sock_server)) \<noteq> [] \<and>
   transport (snd (Connect ConnectOK (newSession sock_server))) = WebSocketTransport \<and>
   transport (snd (Connect ConnectOK (newSession web_server))) = HTTPTransport \<and>
   Connect ConnectOK (newSession (web_server\<lparr>URL := []\<rparr>))
     = (Some (NeitherCommandNorURL ''web''), newSession (web_server\<lparr>URL := []\<rparr>))"
proof -
  have a: "Command (Server (newSession both_server)) \<noteq> []"
    "Command (Server (newSession sock_server)) = []" "URL (Server (newSession sock_server)) \<noteq> []"
    "Command (Server (newSession web_server)) = []" "URL (Server (newSession web_server)) \<noteq> []"
    "Command (Server (newSession (web_server\<lparr>URL := []\<rparr>))) = []"
    "URL (Server (newSession (web_server\<lparr>URL := []\<rparr>))) = []"
    "Name (Server (newSession (web_server\<lparr>URL := []\<rparr>))) = ''web''"
    by (simp_all add: newSession_def both_server_def sock_server_def web_server_def)
  have b: "strings_HasPrefix (URL (Server (newSession sock_server))) ''ws://''"
    "\<not> strings_HasPrefix (URL (Server (newSession web_server))) ''ws://''"
    "\<not> strings_HasPrefix (URL (Server (newSession web_server))) ''wss://''"
    by (simp_all add: newSession_def sock_server_def web_server_def strings_HasPrefix_def)
  from connect_selects_transport [of ConnectOK "newSession both_server"]
    connect_selects_transport [of ConnectOK "newSession sock_server"]
    connect_selects_transport [of ConnectOK "newSession web_server"]
    connect_selects_transport [of ConnectOK "newSession (web_server\<lparr>URL := []\<rparr>)"]
  show ?thesis using a b by simp
qed

section \<open>Routing of tool calls\<close>

lemma occurs_at_single: "occurs_at s [c] i \<longleftrightarrow> i < length s \<and> s ! i = c"
proof (cases "i < length s")
  case True
  then have "drop i s = s ! i # drop (Suc i) s" by (simp add: Cons_nth_drop_Suc)
  with True show ?thesis by (simp add: occurs_at_def)
next
  case False
  then show ?thesis by (simp add: occurs_at_def)
qed

lemma find_first_separator:
  assumes "c \<notin> set a"
  shows "find (occurs_at (a @ c # b) [c]) [0..<Suc (length (a @ c # b))] = Some (length a)"
proof -
  have "occurs_at (a @ c # b) [c] (length a)" by (simp add: occurs_at_single)
  moreover have "\<forall>j < length a. \<not> occurs_at (a @ c # b) [c] j"
    using assms by (auto simp: occurs_at_single nth_append)
  ultimately show ?thesis
    by (auto simp: find_Some_iff intro!: exI [of _ "length a"] simp del: upt_Suc)
qed

lemma find_no_separator:
  assumes "c \<notin> set s"
  shows "find (occurs_at s [c]) [0..<Suc (length s)] = None"
  using assms by (auto simp: find_None_iff occurs_at_single simp del: upt_Suc)

lemma splitN_found:
  assumes "c \<notin> set a"
  shows "splitN (a @ c # b) [c] 2 = [a, b]"
  using find_first_separator [OF assms, of b]
  by (simp add: splitN_2 strings_SplitN2_def)

lemma splitN_not_found:
  assumes "c \<notin> set s"
  shows "splitN s [c] 2 = [s]"
  using find_no_separator [OF assms]
  by (simp add: splitN_2 strings_SplitN2_def)

lemma hasPrefix_append: "hasPrefix (p @ s) p"
  by (simp add: hasPrefix_def)

text \<open>
  Claim C4. \<open>CallTool\<close> of the manager rejects a name without the prefix \<open>mcp_\<close> and
  a name with nothing or no further \<open>_\<close> after the prefix (invalid format); a name
  \<open>mcp_<server>_<tool>\<close>, where \<open><server>\<close> runs up to the first \<open>_\<close> after the
  prefix, fails with server-not-found when the manager has no session of that name and
  is otherwise the session's \<open>CallTool\<close> with \<open><tool>\<close>, the session being put back
  into the manager. Both errors are the spec's NotFoundError.
\<close>

theorem CallTool_routes_by_name:
  "(\<not> strings_HasPrefix full ''mcp_'' \<longrightarrow>
      MCPServerManager_CallTool cd w mm full args
        = Returns (Inl (InvalidToolNameFormat full), mm)) \<and>
   (CHR ''_'' \<notin> set rest \<longrightarrow>
      MCPServerManager_CallTool cd w mm (''mcp_'' @ rest) args
        = Returns (Inl (InvalidToolNameFormat (''mcp_'' @ rest)), mm)) \<and>
   (CHR ''_'' \<notin> set srv \<longrightarrow>
      MCPServerManager_CallTool cd w mm (''mcp_'' @ srv @ ''_'' @ tool) args
        = (case servers mm srv of
             None \<Rightarrow> Returns (Inl (ServerNotFound srv), mm)
           | Some session \<Rightarrow>
               obind (MCPSession_CallTool cd w session tool args)
                 (\<lambda>(r, session'). Returns (r, setSession mm srv session'))))"
proof (intro conjI impI)
  assume "\<not> strings_HasPrefix full ''mcp_''"
  then show "MCPServerManager_CallTool cd w mm full args
        = Returns (Inl (InvalidToolNameFormat full), mm)"
    by (simp add: MCPServerManager_CallTool_def hasPrefix_strings_HasPrefix)
next
  assume n: "CHR ''_'' \<notin> set rest"
  have "drop 4 (''mcp_'' @ rest) = rest" by simp
  then show "MCPServerManager_CallTool cd w mm (''mcp_'' @ rest) args
        = Returns (Inl (InvalidToolNameFormat (''mcp_'' @ rest)), mm)"
    using splitN_not_found [OF n]
    by (simp add: MCPServerManager_CallTool_def Let_def del: drop_append)
next
  assume n: "CHR ''_'' \<notin> set srv"
  have d: "drop 4 (''mcp_'' @ srv @ ''_'' @ tool) = srv @ CHR ''_'' # tool" by simp
  have h: "hasPrefix (''mcp_'' @ srv @ ''_'' @ tool) ''mcp_''" by (rule hasPrefix_append)
  have l: "\<not> length (''mcp_'' @ srv @ ''_'' @ tool) < 5" by simp
  show "MCPServerManager_CallTool cd w mm (''mcp_'' @ srv @ ''_'' @ tool) args
        = (case servers mm srv of
             None \<Rightarrow> Returns (Inl (ServerNotFound srv), mm)
           | Some session \<Rightarrow>
               obind (MCPSession_CallTool cd w session tool args)
                 (\<lambda>(r, session'). Returns (r, setSession mm srv session')))"
    unfolding MCPServerManager_CallTool_def Let_def d
    using h l splitN_found [OF n, of tool] by (simp split: option.splits)
qed

theorem CallTool_routes_by_name_witness:
  "\<not> strings_HasPrefix ''search'' ''mcp_'' \<and>
   MCPServerManager_CallTool example_codec quiet_world alpha_manager ''search'' (JMap [])
     = Returns (Inl (InvalidToolNameFormat ''search''), alpha_manager) \<and>
   CHR ''_'' \<notin> set ''alpha'' \<and>
   MCPServerManager_CallTool example_codec (quiet_world\<lparr>inbound := [call_reply]\<rparr>) alpha_manager
       ''mcp_alpha_search'' (JMap [(''q'', JStr ''x'')])
     = obind (MCPSession_CallTool example_codec (quiet_world\<lparr>inbound := [call_reply]\<rparr>)
                alpha_ready ''search'' (JMap [(''q'', JStr ''x'')]))
         (\<lambda>(r, session'). Returns (r, setSession alpha_manager ''alpha'' session')) \<and>
   (\<exists>session'. MCPSession_CallTool example_codec (quiet_world\<lparr>inbound := [call_reply]\<rparr>)
                alpha_ready ''search'' (JMap [(''q'', JStr ''x'')])
        = Returns (Inr (JStr ''found''), session')) \<and>
   CHR ''_'' \<notin> set ''beta'' \<and>
   MCPServerManager_CallTool example_codec quiet_world alpha_manager ''mcp_beta_search'' (JMap [])
     = Returns (Inl (ServerNotFound ''beta''), alpha_manager) \<and>
   CHR ''_'' \<notin> set ''alpha'' \<and>
   MCPServerManager_CallTool example_codec quiet_world alpha_manager ''mcp_alpha'' (JMap [])
     = Returns (Inl (InvalidToolNameFormat ''mcp_alpha''), alpha_manager)"
proof -
  have a: "\<not> strings_HasPrefix ''search'' ''mcp_''" by (simp add: strings_HasPrefix_def)
  have s: "servers alpha_manager ''alpha'' = Some alpha_ready" "servers alpha_manager ''beta'' = None"
    by (simp_all add: alpha_manager_def)
  have c: "\<exists>session'. MCPSession_CallTool example_codec (quiet_world\<lparr>inbound := [call_reply]\<rparr>)
                alpha_ready ''search'' (JMap [(''q'', JStr ''x'')])
        = Returns (Inr (JStr ''found''), session')"
    by (simp add: MCPSession_CallTool_def sendRequest_def registerRequest_def make_chan_def
        alpha_ready_def newSession_def Let_def sendStdioRequest_def example_codec_def quiet_world_def
        afterSend_def background_reader_def handleResponse_def go_int_def lookupRequest_def
        chan_send_def deleteRequest_def awaitResponse_def raw_bytes_def
        call_reply_def init_reply_def tools_reply_def stray_reply_def second_reply_def)
  from CallTool_routes_by_name [where full = "''search''" and cd = example_codec and w = quiet_world
        and mm = alpha_manager and args = "JMap []" and rest = "''alpha''" and srv = "''beta''"
        and tool = "''search''"]
    CallTool_routes_by_name [where srv = "''alpha''" and tool = "''search''" and cd = example_codec
        and w = "quiet_world\<lparr>inbound := [call_reply]\<rparr>" and mm = alpha_manager
        and args = "JMap [(''q'', JStr ''x'')]"]
  show ?thesis using a s c by simp
qed

section \<open>Tool aggregation\<close>

lemma ListTools_returns:
  assumes "pending_ok ms"
  shows "\<exists>r ms'. ListTools cd w ms = Returns (r, ms') \<and> pending_ok ms'"
proof -
  from sendRequest_returns [OF assms, of cd w "''tools/list''" "JMap []"]
  obtain r ms' where "sendRequest cd w ms ''tools/list'' (JMap []) = Returns (r, ms')" "pending_ok ms'"
    by blast
  then show ?thesis by (simp add: ListTools_def)
qed

lemma tool_copy: "(\<lambda>tool. \<lparr>ToolName = ToolName tool, Description = Description tool,
    InputSchema = InputSchema tool\<rparr>) = (\<lambda>tool :: ToolDefinition. tool)"
  by (rule ext) simp

lemma ListTools_passes_tools:
  assumes "sendRequest cd w ms ''tools/list'' (JMap []) = Returns (Inr response, ms')"
    and "unmarshal_list cd response = Some (None, ts)"
  shows "ListTools cd w ms = Returns (Inr ts, ms')"
  using assms by (simp add: ListTools_def tool_copy)

lemma servers_setSession: "servers (setSession mm name s) n = (if n = name then Some s else servers mm n)"
  by (simp add: setSession_def)

lemma GetTools_loop_char:
  assumes "distinct order"
    and "\<forall>name \<in> set order. \<exists>session. servers mm name = Some session \<and> pending_ok session"
  shows "\<exists>mm'. GetTools_loop cd world mm acc order =
           Returns (acc @ concat (map (\<lambda>name. map (prefixTool name)
                      (listed_tools cd (world name) (the (servers mm name)))) order), mm')"
  using assms
proof (induction order arbitrary: mm acc)
  case Nil
  then show ?case by simp
next
  case (Cons name rest)
  from Cons.prems(2) obtain session where s: "servers mm name = Some session" "pending_ok session"
    by auto
  from ListTools_returns [OF s(2), of cd "world name"] obtain r session' where
    l: "ListTools cd (world name) session = Returns (r, session')" by blast
  let ?mm1 = "setSession mm name session'"
  have same: "\<And>n. n \<in> set rest \<Longrightarrow> servers ?mm1 n = servers mm n"
    using Cons.prems(1) by (auto simp: servers_setSession)
  have p: "\<forall>n \<in> set rest. \<exists>session. servers ?mm1 n = Some session \<and> pending_ok session"
    using Cons.prems(2) same by simp
  have d: "distinct rest" using Cons.prems(1) by simp
  let ?f = "\<lambda>m n. map (prefixTool n) (listed_tools cd (world n) (the (servers m n)))"
  have "map (?f ?mm1) rest = map (?f mm) rest"
    using same by (intro map_cong) simp_all
  then have eq: "concat (map (?f ?mm1) rest) = concat (map (?f mm) rest)"
    by (rule arg_cong)
  have lt: "listed_tools cd (world name) (the (servers mm name))
      = (case r of Inl err \<Rightarrow> [] | Inr tools \<Rightarrow> tools)"
    using s l by (simp add: listed_tools_def split: sum.splits)
  show ?case
  proof (cases r)
    case (Inl err)
    from Cons.IH [OF d p, of acc] obtain mm' where
      "GetTools_loop cd world ?mm1 acc rest = Returns (acc @ concat (map (?f ?mm1) rest), mm')"
      by blast
    with eq lt s l Inl show ?thesis by simp
  next
    case (Inr tools)
    from Cons.IH [OF d p, of "acc @ map (prefixTool name) tools"] obtain mm' where
      "GetTools_loop cd world ?mm1 (acc @ map (prefixTool name) tools) rest
         = Returns ((acc @ map (prefixTool name) tools) @ concat (map (?f ?mm1) rest), mm')"
      by blast
    with eq lt s l Inr show ?thesis by simp
  qed
qed

lemma fs_ready_reached:
  "ConnectAll_body example_codec
     \<lparr>connect_world = ConnectOK, init_world = quiet_world\<lparr>inbound := [init_reply]\<rparr>\<rparr>
     (newSession fs_server) = Returns (None, fs_ready)"
  by (simp add: ConnectAll_body_def Connect_def connectViaStdio_def newSession_def fs_server_def
      Initialize_def sendRequest_def registerRequest_def make_chan_def Let_def sendStdioRequest_def
      example_codec_def quiet_world_def afterSend_def background_reader_def handleResponse_def
      go_int_def lookupRequest_def chan_send_def deleteRequest_def awaitResponse_def fs_ready_def
      raw_bytes_def init_reply_def)

lemma ListTools_fs_ready:
  "ListTools example_codec (tools_world ''fs'') fs_ready
      = Returns (Inr [read_tool], fs_ready\<lparr>reqID := 2, chans := [None, None],
          scanbuf := init_reply @ tools_reply,
          written := [''{method:initialize}'' @ [newline], ''{method:tools/list}'' @ [newline]]\<rparr>)"
  by (simp add: ListTools_def sendRequest_def registerRequest_def make_chan_def Let_def
      sendStdioRequest_def example_codec_def quiet_world_def tools_world_def afterSend_def
      background_reader_def handleResponse_def go_int_def lookupRequest_def chan_send_def
      deleteRequest_def awaitResponse_def fs_ready_def newSession_def raw_bytes_def tools_reply_def
      init_reply_def tool_copy)

lemma listed_tools_fs_ready: "listed_tools example_codec (tools_world ''fs'') fs_ready = [read_tool]"
  by (simp add: listed_tools_def ListTools_fs_ready)

text \<open>
  Where every session the manager visits is connected (its pending map is in order),
  whatever the order of the visit, \<open>GetTools\<close> returns, for each session in turn, the
  tools that session lists, each renamed to \<open>mcp_<server>_<tool>\<close> with description and
  input schema untouched; \<open>ListTools\<close> hands on the decoded tools as they are.
\<close>

lemma GetTools_of_connected_sessions:
  "(distinct order \<and>
    (\<forall>name \<in> set order. \<exists>session. servers mm name = Some session \<and> pending_ok session) \<longrightarrow>
      (\<exists>mm'. GetTools cd world order mm =
         Returns (concat (map (\<lambda>name. map (prefixTool name)
                    (listed_tools cd (world name) (the (servers mm name)))) order), mm'))) \<and>
   ToolName (prefixTool name tool) = ''mcp_'' @ name @ ''_'' @ ToolName tool \<and>
   Description (prefixTool name tool) = Description tool \<and>
   InputSchema (prefixTool name tool) = InputSchema tool \<and>
   (sendRequest cd w ms ''tools/list'' (JMap []) = Returns (Inr response, ms') \<and>
    unmarshal_list cd response = Some (None, ts) \<longrightarrow>
      ListTools cd w ms = Returns (Inr ts, ms'))"
  using GetTools_loop_char [of order mm cd world "[]"] ListTools_passes_tools [of cd w ms response ms' ts]
  by (simp add: GetTools_def prefixTool_def)

text \<open>The manager that holds only the session of \<open>fs\<close>, which lists the tool \<open>read\<close>.\<close>

lemma GetTools_fs_manager:
  "distinct [''fs''] \<and> servers fs_manager ''fs'' = Some fs_ready \<and> pending_ok fs_ready \<and>
   listed_tools example_codec (tools_world ''fs'') fs_ready = [read_tool] \<and>
   (\<exists>mm'. GetTools example_codec tools_world [''fs''] fs_manager
           = Returns ([\<lparr>ToolName = ''mcp_fs_read'', Description = ''Read a file'',
                        InputSchema = JMap [(''type'', JStr ''object'')]\<rparr>], mm'))"
proof -
  have a: "servers fs_manager ''fs'' = Some fs_ready" by (simp add: fs_manager_def)
  have b: "pending_ok fs_ready" by (simp add: pending_ok_def fs_ready_def)
  from GetTools_of_connected_sessions [where order = "[''fs'']" and mm = fs_manager
      and cd = example_codec and world = tools_world]
  show ?thesis using a b listed_tools_fs_ready by (simp add: prefixTool_def read_tool_def)
qed

section \<open>ConnectAll\<close>

lemma Connect_failed:
  assumes "Connect cr ms = (Some e, ms1)"
  shows "activeRequests ms1 = activeRequests ms \<and> Server ms1 = Server ms \<and> chans ms1 = chans ms"
  using assms
  by (auto simp: Connect_def connectViaStdio_def connectViaWebSocket_def connectViaHTTP_def
      split: if_splits connect_result.splits)

lemma Initialize_returns:
  assumes "pending_ok ms"
  shows "\<exists>r ms'. Initialize cd w ms = Returns (r, ms') \<and> pending_ok ms'"
proof -
  from sendRequest_returns [OF assms, of cd w "''initialize''" "JMap [(''capabilities'', JMap [])]"]
  obtain r ms' where
    "sendRequest cd w ms ''initialize'' (JMap [(''capabilities'', JMap [])]) = Returns (r, ms')"
    "pending_ok ms'"
    by blast
  then show ?thesis by (simp add: Initialize_def)
qed

lemma ConnectAll_body_returns: "\<exists>e s'. ConnectAll_body cd sw session = Returns (e, s')"
proof (cases "Connect (connect_world sw) session")
  case (Pair cerr s1)
  show ?thesis
  proof (cases cerr)
    case (Some err)
    with Pair show ?thesis by (simp add: ConnectAll_body_def)
  next
    case None
    with Pair have "pending_ok s1" using Connect_ok_empty pending_ok_empty by blast
    from Initialize_returns [OF this, of cd "init_world sw"] obtain r s2 where
      "Initialize cd (init_world sw) s1 = Returns (r, s2)" by blast
    with Pair None show ?thesis by (cases r) (simp_all add: ConnectAll_body_def)
  qed
qed

lemma ConnectAll_body_attempt:
  "ConnectAll_body cd sw session = Returns (connect_attempt cd sw session)"
  using ConnectAll_body_returns [of cd sw session] by (auto simp: connect_attempt_def)

lemma ConnectAll_loop_char:
  assumes "distinct order"
  shows "\<exists>err mm'. ConnectAll_loop cd world mm lastErr order = Returns (err, mm') \<and>
           (\<forall>name. servers mm' name =
              (if name \<in> set order
               then map_option (\<lambda>s. snd (connect_attempt cd (world name) s)) (servers mm name)
               else servers mm name)) \<and>
           ((err = None) = (lastErr = None \<and>
              (\<forall>name \<in> set order. \<forall>s. servers mm name = Some s \<longrightarrow>
                 fst (connect_attempt cd (world name) s) = None)))"
  using assms
proof (induction order arbitrary: mm lastErr)
  case Nil
  then show ?case by simp
next
  case (Cons name rest)
  then have d: "distinct rest" and nm: "name \<notin> set rest" by simp_all
  show ?case
  proof (cases "servers mm name")
    case None
    from Cons.IH [OF d, of mm lastErr] obtain err mm' where IH:
      "ConnectAll_loop cd world mm lastErr rest = Returns (err, mm')"
      "\<forall>n. servers mm' n =
              (if n \<in> set rest
               then map_option (\<lambda>s. snd (connect_attempt cd (world n) s)) (servers mm n)
               else servers mm n)"
      "(err = None) = (lastErr = None \<and>
              (\<forall>n \<in> set rest. \<forall>s. servers mm n = Some s \<longrightarrow>
                 fst (connect_attempt cd (world n) s) = None))"
      by blast
    have "ConnectAll_loop cd world mm lastErr (name # rest) = Returns (err, mm')"
      using None IH(1) by simp
    moreover have "\<forall>n. servers mm' n =
              (if n \<in> set (name # rest)
               then map_option (\<lambda>s. snd (connect_attempt cd (world n) s)) (servers mm n)
               else servers mm n)"
      using IH(2) None by auto
    moreover have "(err = None) = (lastErr = None \<and>
              (\<forall>n \<in> set (name # rest). \<forall>s. servers mm n = Some s \<longrightarrow>
                 fst (connect_attempt cd (world n) s) = None))"
      using IH(3) None by auto
    ultimately show ?thesis by blast
  next
    case (Some session)
    obtain e s' where a: "connect_attempt cd (world name) session = (e, s')"
      by (cases "connect_attempt cd (world name) session")
    let ?mm1 = "setSession mm name s'"
    let ?le = "case e of Some x \<Rightarrow> Some x | None \<Rightarrow> lastErr"
    have same: "\<And>n. n \<noteq> name \<Longrightarrow> servers ?mm1 n = servers mm n"
      by (simp add: servers_setSession)
    from Cons.IH [OF d, of ?mm1 ?le] obtain err mm' where IH:
      "ConnectAll_loop cd world ?mm1 ?le rest = Returns (err, mm')"
      "\<forall>n. servers mm' n =
              (if n \<in> set rest
               then map_option (\<lambda>s. snd (connect_attempt cd (world n) s)) (servers ?mm1 n)
               else servers ?mm1 n)"
      "(err = None) = (?le = None \<and>
              (\<forall>n \<in> set rest. \<forall>s. servers ?mm1 n = Some s \<longrightarrow>
                 fst (connect_attempt cd (world n) s) = None))"
      by blast
    have run: "ConnectAll_loop cd world mm lastErr (name # rest) = Returns (err, mm')"
      using Some a IH(1) by (simp add: ConnectAll_body_attempt)
    have st: "\<forall>n. servers mm' n =
              (if n \<in> set (name # rest)
               then map_option (\<lambda>s. snd (connect_attempt cd (world n) s)) (servers mm n)
               else servers mm n)"
    proof
      fix n
      show "servers mm' n =
              (if n \<in> set (name # rest)
               then map_option (\<lambda>s. snd (connect_attempt cd (world n) s)) (servers mm n)
               else servers mm n)"
      proof (cases "n = name")
        case True
        with IH(2) nm have "servers mm' n = Some s'" by (simp add: servers_setSession)
        with True Some a show ?thesis by simp
      next
        case False
        with IH(2) same [OF False] show ?thesis by simp
      qed
    qed
    have rest_same: "(\<forall>n \<in> set rest. \<forall>s. servers ?mm1 n = Some s \<longrightarrow>
                 fst (connect_attempt cd (world n) s) = None)
        = (\<forall>n \<in> set rest. \<forall>s. servers mm n = Some s \<longrightarrow>
                 fst (connect_attempt cd (world n) s) = None)"
      using nm same by (metis)
    have er: "(err = None) = (lastErr = None \<and>
              (\<forall>n \<in> set (name # rest). \<forall>s. servers mm n = Some s \<longrightarrow>
                 fst (connect_attempt cd (world n) s) = None))"
      using IH(3) rest_same Some a by (cases e) auto
    show ?thesis using run st er by blast
  qed
qed

lemma three_servers:
  "servers three_manager ''fs'' = Some (newSession fs_server)"
  "servers three_manager ''sock'' = Some (newSession sock_server)"
  "servers three_manager ''web'' = Some (newSession web_server)"
  "dom (servers three_manager) = {''fs'', ''sock'', ''web''}"
  by (auto simp: three_manager_def AddServer_def NewMCPServerManager_def fs_server_def
      sock_server_def web_server_def split: if_splits)

lemma attempt_fs: "connect_attempt example_codec (three_world ''fs'') (newSession fs_server) = (None, fs_ready)"
  using fs_ready_reached by (simp add: connect_attempt_def three_world_def)

lemma attempt_sock:
  "connect_attempt example_codec (three_world ''sock'') (newSession sock_server)
     = (Some (DialFailed ''connection refused''), sock_failed)"
  by (simp add: connect_attempt_def three_world_def ConnectAll_body_def Connect_def
      connectViaWebSocket_def newSession_def sock_server_def strings_HasPrefix_def sock_failed_def)

lemma attempt_web: "connect_attempt example_codec (three_world ''web'') (newSession web_server) = (None, web_ready)"
proof -
  let ?w = "quiet_world\<lparr>round_trip := (\<lambda>data. Inr init_reply)\<rparr>"
  have a: "transport web_connected = HTTPTransport" "activeRequests web_connected = Some Map.empty"
    by (simp_all add: web_connected_def newSession_def)
  have b: "marshal example_codec
      \<lparr>req_id = reqID web_connected + 1, req_method = ''initialize'',
        req_params = JMap [(''capabilities'', JMap [])]\<rparr> = Some ''{method:initialize}''"
    by (simp add: example_codec_def)
  have c: "round_trip ?w ''{method:initialize}'' = Inr init_reply" "\<not> deadline_wins ?w"
    by (simp_all add: quiet_world_def)
  have d: "unmarshal_map example_codec init_reply = Some [''id'' \<mapsto> JFloat 1, ''result'' \<mapsto> JMap []]"
    by (simp add: example_codec_def)
  have e: "(registered web_connected Map.empty)\<lparr>written := written web_connected @ [''{method:initialize}'']\<rparr> = web_ready"
    by (simp add: registered_def web_connected_def web_ready_def newSession_def)
  have f: "unmarshal_init example_codec init_reply = Some (None, JNil)"
    by (simp add: example_codec_def)
  have "Initialize example_codec ?w web_connected = Returns (None, web_ready)"
    using http_call [OF a b c(1) d c(2)] e f by (simp add: Initialize_def)
  then show ?thesis
    by (simp add: connect_attempt_def ConnectAll_body_def web_connected_reached three_world_def)
qed

text \<open>
  Claim C3, amended. \<open>ConnectAll\<close> always returns. It runs \<open>Connect\<close> and, when that
  succeeds, \<open>Initialize\<close> on every registered session it visits, whatever happened to
  the others; it removes no session from the manager's map, which afterwards holds
  for every visited name the session as that round left it; and the error it returns
  is nil exactly when every round succeeded. A round succeeds exactly when \<open>Connect\<close>
  and \<open>Initialize\<close> both return no error.
\<close>

theorem ConnectAll_attempts_every_server:
  "(distinct order \<longrightarrow>
      (\<exists>err mm'. ConnectAll cd world order mm = Returns (err, mm') \<and>
         dom (servers mm') = dom (servers mm) \<and>
         (\<forall>name \<in> set order. \<forall>s. servers mm name = Some s \<longrightarrow>
            servers mm' name = Some (snd (connect_attempt cd (world name) s))) \<and>
         ((err = None) = (\<forall>name \<in> set order. \<forall>s. servers mm name = Some s \<longrightarrow>
            fst (connect_attempt cd (world name) s) = None)))) \<and>
   ConnectAll_body cd sw session = Returns (connect_attempt cd sw session) \<and>
   ((fst (connect_attempt cd sw session) = None) =
      (\<exists>s1 s2. Connect (connect_world sw) session = (None, s1) \<and>
               Initialize cd (init_world sw) s1 = Returns (None, s2)))"
proof (intro conjI impI)
  assume d: "distinct order"
  from ConnectAll_loop_char [OF d, of cd world mm None] obtain err mm' where r:
    "ConnectAll_loop cd world mm None order = Returns (err, mm')"
    "\<forall>name. servers mm' name =
              (if name \<in> set order
               then map_option (\<lambda>s. snd (connect_attempt cd (world name) s)) (servers mm name)
               else servers mm name)"
    "(err = None) = (None = (None :: error option) \<and>
              (\<forall>name \<in> set order. \<forall>s. servers mm name = Some s \<longrightarrow>
                 fst (connect_attempt cd (world name) s) = None))"
    by blast
  have "dom (servers mm') = dom (servers mm)"
    using r(2) by (auto simp: dom_def split: if_splits)
  moreover have "\<forall>name \<in> set order. \<forall>s. servers mm name = Some s \<longrightarrow>
            servers mm' name = Some (snd (connect_attempt cd (world name) s))"
    using r(2) by simp
  ultimately show "\<exists>err mm'. ConnectAll cd world order mm = Returns (err, mm') \<and>
         dom (servers mm') = dom (servers mm) \<and>
         (\<forall>name \<in> set order. \<forall>s. servers mm name = Some s \<longrightarrow>
            servers mm' name = Some (snd (connect_attempt cd (world name) s))) \<and>
         ((err = None) = (\<forall>name \<in> set order. \<forall>s. servers mm name = Some s \<longrightarrow>
            fst (connect_attempt cd (world name) s) = None))"
    using r(1,3) by (auto simp: ConnectAll_def)
next
  show "ConnectAll_body cd sw session = Returns (connect_attempt cd sw session)"
    by (rule ConnectAll_body_attempt)
next
  show "(fst (connect_attempt cd sw session) = None) =
      (\<exists>s1 s2. Connect (connect_world sw) session = (None, s1) \<and>
               Initialize cd (init_world sw) s1 = Returns (None, s2))"
  proof (cases "Connect (connect_world sw) session")
    case (Pair cerr s1)
    show ?thesis
    proof (cases cerr)
      case (Some e)
      with Pair show ?thesis by (simp add: connect_attempt_def ConnectAll_body_def)
    next
      case None
      with Pair have "pending_ok s1" using Connect_ok_empty pending_ok_empty by blast
      from Initialize_returns [OF this, of cd "init_world sw"] obtain r s2 where
        "Initialize cd (init_world sw) s1 = Returns (r, s2)" by blast
      with Pair None show ?thesis
        by (cases r) (simp_all add: connect_attempt_def ConnectAll_body_def)
    qed
  qed
qed

lemma ListTools_sock_failed:
  "ListTools example_codec w sock_failed = Panics ''assignment to entry in nil map''"
proof -
  have n: "activeRequests sock_failed = None" by (simp add: sock_failed_def newSession_def)
  show ?thesis by (simp add: ListTools_def sendRequest_def registerRequest_nil [OF n])
qed

lemma GetTools_after_failed_dial:
  assumes "servers mm ''fs'' = Some fs_ready" "servers mm ''sock'' = Some sock_failed"
  shows "GetTools example_codec tools_world [''fs'', ''sock'', ''web''] mm
           = Panics ''assignment to entry in nil map''"
  using assms ListTools_fs_ready ListTools_sock_failed
  by (simp add: GetTools_def servers_setSession)

lemma ListTools_web_ready:
  "\<exists>e s. ListTools example_codec (tools_world ''web'') web_ready = Returns (Inl e, s)"
  by (simp add: ListTools_def sendRequest_def registerRequest_def make_chan_def Let_def
      sendHTTPRequest_def example_codec_def quiet_world_def tools_world_def afterSend_def
      web_ready_def newSession_def)

theorem ConnectAll_attempts_every_server_witness:
  "distinct [''fs'', ''sock'', ''web''] \<and>
   (\<exists>mm'. ConnectAll example_codec three_world [''fs'', ''sock'', ''web''] three_manager
            = Returns (Some (DialFailed ''connection refused''), mm') \<and>
          dom (servers mm') = {''fs'', ''sock'', ''web''} \<and>
          servers mm' ''fs'' = Some fs_ready \<and>
          servers mm' ''sock'' = Some sock_failed \<and>
          servers mm' ''web'' = Some web_ready) \<and>
   fst (connect_attempt example_codec (three_world ''fs'') (newSession fs_server)) = None \<and>
   fst (connect_attempt example_codec (three_world ''sock'') (newSession sock_server)) \<noteq> None \<and>
   fst (connect_attempt example_codec (three_world ''web'') (newSession web_server)) = None"
proof -
  have d: "distinct [''fs'', ''sock'', ''web'']" by simp
  from ConnectAll_attempts_every_server [where order = "[''fs'', ''sock'', ''web'']"
      and cd = example_codec and world = three_world and mm = three_manager,
      THEN conjunct1, THEN mp, OF d]
  obtain err mm' where r:
    "ConnectAll example_codec three_world [''fs'', ''sock'', ''web''] three_manager = Returns (err, mm')"
    "dom (servers mm') = dom (servers three_manager)"
    "\<And>name s. name \<in> set [''fs'', ''sock'', ''web''] \<Longrightarrow> servers three_manager name = Some s \<Longrightarrow>
        servers mm' name = Some (snd (connect_attempt example_codec (three_world name) s))"
    "(err = None) = (\<forall>name \<in> set [''fs'', ''sock'', ''web'']. \<forall>s. servers three_manager name = Some s \<longrightarrow>
            fst (connect_attempt example_codec (three_world name) s) = None)"
    by blast
  from r(4) have "err \<noteq> None"
    using three_servers(2) attempt_sock by auto
  have e: "err = Some (DialFailed ''connection refused'')"
    using r(1)
    by (simp add: ConnectAll_def three_servers ConnectAll_body_attempt attempt_fs attempt_sock
        attempt_web servers_setSession)
  from r(3) [of "''fs''"] r(3) [of "''sock''"] r(3) [of "''web''"]
  have "servers mm' ''fs'' = Some fs_ready" "servers mm' ''sock'' = Some sock_failed"
    "servers mm' ''web'' = Some web_ready"
    by (simp_all add: three_servers attempt_fs attempt_sock attempt_web)
  with r(1,2) e show ?thesis
    by (auto simp: three_servers attempt_fs attempt_sock attempt_web)
qed

text \<open>
  Claim C3 as stated fails. After \<open>ConnectAll\<close> over the three servers, the session
  of \<open>sock\<close>, whose dial was refused, is still in the manager's map with its pending
  map never made; and \<open>GetTools\<close> on that manager does not return the tools of the
  other two: it panics when it reaches \<open>sock\<close>.
\<close>

theorem ConnectAll_keeps_failed_session_counterexample:
  "(case ConnectAll example_codec three_world [''fs'', ''sock'', ''web''] three_manager of
      Returns (err, mm') \<Rightarrow>
        servers mm' ''sock'' = Some sock_failed \<and> activeRequests sock_failed = None \<and>
        GetTools example_codec tools_world [''fs'', ''sock'', ''web''] mm'
          = Panics ''assignment to entry in nil map''
    | _ \<Rightarrow> False)"
proof -
  from ConnectAll_loop_char [of "[''fs'', ''sock'', ''web'']" example_codec three_world three_manager None]
  obtain err mm' where r:
    "ConnectAll example_codec three_world [''fs'', ''sock'', ''web''] three_manager = Returns (err, mm')"
    "\<And>name. servers mm' name =
              (if name \<in> set [''fs'', ''sock'', ''web'']
               then map_option (\<lambda>s. snd (connect_attempt example_codec (three_world name) s))
                      (servers three_manager name)
               else servers three_manager name)"
    by (auto simp: ConnectAll_def)
  have a: "servers mm' ''fs'' = Some fs_ready" "servers mm' ''sock'' = Some sock_failed"
    using r(2) [of "''fs''"] r(2) [of "''sock''"]
    by (simp_all add: three_servers attempt_fs attempt_sock)
  have n: "activeRequests sock_failed = None" by (simp add: sock_failed_def newSession_def)
  from GetTools_after_failed_dial [OF a] r(1) a(2) n show ?thesis by simp
qed

text \<open>
  Claim C6 fails where a session that did not connect is in the manager, which is
  where \<open>ConnectAll\<close> leaves every server it could not reach. After \<open>ConnectAll\<close> over
  the three servers the session of \<open>fs\<close> is ready and lists the tool \<open>read\<close>, but
  \<open>GetTools\<close> does not return \<open>mcp_fs_read\<close>: in whichever order it visits the three
  sessions, it panics when it reaches \<open>sock\<close>, whose pending map was never made, and
  the tools gathered so far are lost.
\<close>

theorem GetTools_panics_beside_failed_session:
  "(case ConnectAll example_codec three_world [''fs'', ''sock'', ''web''] three_manager of
      Returns (err, mm') \<Rightarrow>
        servers mm' ''fs'' = Some fs_ready \<and>
        (case ListTools example_codec (tools_world ''fs'') fs_ready of
           Returns (Inr tools, session') \<Rightarrow> tools = [read_tool]
         | _ \<Rightarrow> False) \<and>
        GetTools example_codec tools_world [''fs'', ''sock'', ''web''] mm'
          = Panics ''assignment to entry in nil map'' \<and>
        GetTools example_codec tools_world [''fs'', ''web'', ''sock''] mm'
          = Panics ''assignment to entry in nil map'' \<and>
        GetTools example_codec tools_world [''sock'', ''fs'', ''web''] mm'
          = Panics ''assignment to entry in nil map'' \<and>
        GetTools example_codec tools_world [''sock'', ''web'', ''fs''] mm'
          = Panics ''assignment to entry in nil map'' \<and>
        GetTools example_codec tools_world [''web'', ''fs'', ''sock''] mm'
          = Panics ''assignment to entry in nil map'' \<and>
        GetTools example_codec tools_world [''web'', ''sock'', ''fs''] mm'
          = Panics ''assignment to entry in nil map''
    | _ \<Rightarrow> False)"
proof -
  from ConnectAll_loop_char [of "[''fs'', ''sock'', ''web'']" example_codec three_world three_manager None]
  obtain err mm' where r:
    "ConnectAll example_codec three_world [''fs'', ''sock'', ''web''] three_manager = Returns (err, mm')"
    "\<And>name. servers mm' name =
              (if name \<in> set [''fs'', ''sock'', ''web'']
               then map_option (\<lambda>s. snd (connect_attempt example_codec (three_world name) s))
                      (servers three_manager name)
               else servers three_manager name)"
    by (auto simp: ConnectAll_def)
  have a: "servers mm' ''fs'' = Some fs_ready" "servers mm' ''sock'' = Some sock_failed"
    "servers mm' ''web'' = Some web_ready"
    using r(2) [of "''fs''"] r(2) [of "''sock''"] r(2) [of "''web''"]
    by (simp_all add: three_servers attempt_fs attempt_sock attempt_web)
  obtain e s where w: "ListTools example_codec (tools_world ''web'') web_ready = Returns (Inl e, s)"
    using ListTools_web_ready by blast
  note f = ListTools_fs_ready and p = ListTools_sock_failed
  have g1: "GetTools example_codec tools_world [''fs'', ''sock'', ''web''] mm'
      = Panics ''assignment to entry in nil map''"
    using a f p w by (simp add: GetTools_def servers_setSession)
  have g2: "GetTools example_codec tools_world [''fs'', ''web'', ''sock''] mm'
      = Panics ''assignment to entry in nil map''"
    using a f p w by (simp add: GetTools_def servers_setSession)
  have g3: "GetTools example_codec tools_world [''sock'', ''fs'', ''web''] mm'
      = Panics ''assignment to entry in nil map''"
    using a f p w by (simp add: GetTools_def servers_setSession)
  have g4: "GetTools example_codec tools_world [''sock'', ''web'', ''fs''] mm'
      = Panics ''assignment to entry in nil map''"
    using a f p w by (simp add: GetTools_def servers_setSession)
  have g5: "GetTools example_codec tools_world [''web'', ''fs'', ''sock''] mm'
      = Panics ''assignment to entry in nil map''"
    using a f p w by (simp add: GetTools_def servers_setSession)
  have g6: "GetTools example_codec tools_world [''web'', ''sock'', ''fs''] mm'
      = Panics ''assignment to entry in nil map''"
    using a f p w by (simp add: GetTools_def servers_setSession)
  show ?thesis
    unfolding r(1) using a(1) f g1 g2 g3 g4 g5 g6 by simp
qed

end
